theory Spec2Isabelle
  imports Main "HOL-Library.Sublist"
begin

section \<open>A shallow embedding of the blog scraper (\<^verbatim>\<open>src/scraper.py\<close>)\<close>

text \<open>
  The scraper is one Python class, \<^verbatim>\<open>BlogScraper\<close>. Its methods are embedded one by one,
  under their own names. What the class takes from libraries is made explicit:
  \<^item> a Python \<^verbatim>\<open>str\<close> is a \<^typ>\<open>string\<close>, one \<^typ>\<open>char\<close> per character (the model
    covers the code points 0 to 255);
  \<^item> a parsed page (a BeautifulSoup document) is a list of \<open>node\<close>s, and the CSS selectors
    the source uses (type, class, attribute equality, descendant combinator, selector
    list) are interpreted over it;
  \<^item> \<^verbatim>\<open>urljoin\<close>, \<^verbatim>\<open>urlparse(...).netloc\<close>, \<^verbatim>\<open>time.sleep\<close>, the HTML parser, the serialiser
    \<^verbatim>\<open>str(tag)\<close>, the iteration order of a Python \<^verbatim>\<open>set\<close> and \<^verbatim>\<open>requests.get\<close> are
    parameters, collected in the record \<open>env\<close>: the theorems hold for every choice of them;
  \<^item> an exception that no handler of the class catches is a value: a function that can
    raise returns \<open>Inl\<close> of the error where it raises and \<open>Inr\<close> of its result where it
    returns;
  \<^item> the network, the log and the written files are explicit state.
\<close>

subsection \<open>Strings\<close>

text \<open>\<^verbatim>\<open>str.isspace\<close> on the code points below 256.\<close>

definition isspace :: "char \<Rightarrow> bool" where
  "isspace c = (let n = (of_char c :: nat) in
     (9 \<le> n \<and> n \<le> 13) \<or> (28 \<le> n \<and> n \<le> 32) \<or> n = 133 \<or> n = 160)"

text \<open>\<^verbatim>\<open>s.strip()\<close>\<close>

definition strip :: "string \<Rightarrow> string" where
  "strip s = rev (dropWhile isspace (rev (dropWhile isspace s)))"

text \<open>\<^verbatim>\<open>s.startswith(p)\<close>\<close>

definition startswith :: "string \<Rightarrow> string \<Rightarrow> bool" where
  "startswith s p = (take (length p) s = p)"

text \<open>\<^verbatim>\<open>s.split(sep)\<close> for a separator of one character: the pieces between the separators,
  the empty ones included.\<close>

fun split_acc :: "char \<Rightarrow> string \<Rightarrow> string \<Rightarrow> string list" where
  "split_acc sep cur [] = [cur]"
| "split_acc sep cur (c # cs) =
     (if c = sep then cur # split_acc sep [] cs else split_acc sep (cur @ [c]) cs)"

definition split :: "string \<Rightarrow> char \<Rightarrow> string list" where
  "split s sep = split_acc sep [] s"

text \<open>The maximal runs of non-whitespace characters (how a \<^verbatim>\<open>class\<close> attribute is read).\<close>

fun tokens_acc :: "string \<Rightarrow> string \<Rightarrow> string list" where
  "tokens_acc cur [] = (if cur = [] then [] else [cur])"
| "tokens_acc cur (c # cs) =
     (if isspace c then (if cur = [] then tokens_acc [] cs else cur # tokens_acc [] cs)
      else tokens_acc (cur @ [c]) cs)"

definition tokens :: "string \<Rightarrow> string list" where
  "tokens s = tokens_acc [] s"

subsection \<open>Parsed pages and selectors\<close>

datatype node = Text string | Elem string "(string \<times> string) list" "node list"

text \<open>\<^verbatim>\<open>tag.get(name)\<close>: the attribute's value, or \<^verbatim>\<open>None\<close>.\<close>

fun get_attr :: "node \<Rightarrow> string \<Rightarrow> string option" where
  "get_attr (Text s) k = None"
| "get_attr (Elem t a cs) k = map_of a k"

fun tag_name :: "node \<Rightarrow> string option" where
  "tag_name (Text s) = None"
| "tag_name (Elem t a cs) = Some t"

text \<open>\<^verbatim>\<open>tag.get_text()\<close>: the text of all descendants, in document order.\<close>

fun get_text :: "node \<Rightarrow> string" where
  "get_text (Text s) = s"
| "get_text (Elem t a cs) = concat (map get_text cs)"

text \<open>
  A compound selector is a list of simple selectors that must all hold; a complex selector
  is a list of compounds joined by the descendant combinator, outermost first; a selector
  is a comma-separated list of complex selectors. So \<^verbatim>\<open>".post a"\<close> is
  \<open>[[[Class ''post''], [Tag ''a'']]]\<close> and \<^verbatim>\<open>"script, style"\<close> is
  \<open>[[[Tag ''script'']], [[Tag ''style'']]]\<close>.
\<close>

datatype simple = Tag string | Class string | AttrEq string string

type_synonym compound = "simple list"
type_synonym complex = "compound list"
type_synonym selector = "complex list"

fun matches_simple :: "node \<Rightarrow> simple \<Rightarrow> bool" where
  "matches_simple (Text s) x = False"
| "matches_simple (Elem t a cs) (Tag n) = (t = n)"
| "matches_simple (Elem t a cs) (Class c) =
     (case map_of a ''class'' of None \<Rightarrow> False | Some v \<Rightarrow> c \<in> set (tokens v))"
| "matches_simple (Elem t a cs) (AttrEq k v) = (map_of a k = Some v)"

definition matches_compound :: "node \<Rightarrow> compound \<Rightarrow> bool" where
  "matches_compound e c = list_all (matches_simple e) c"

text \<open>The remaining compounds, innermost first, against the ancestors, nearest first.\<close>

fun match_ancestors :: "compound list \<Rightarrow> node list \<Rightarrow> bool" where
  "match_ancestors [] anc = True"
| "match_ancestors (c # cs) [] = False"
| "match_ancestors (c # cs) (a # anc) =
     (if matches_compound a c then match_ancestors cs anc else match_ancestors (c # cs) anc)"

definition matches_complex :: "complex \<Rightarrow> node list \<times> node \<Rightarrow> bool" where
  "matches_complex cx p =
     (case rev cx of [] \<Rightarrow> False
      | c # cs \<Rightarrow> matches_compound (snd p) c \<and> match_ancestors cs (fst p))"

definition matches :: "selector \<Rightarrow> node list \<times> node \<Rightarrow> bool" where
  "matches sel p = list_ex (\<lambda>cx. matches_complex cx p) sel"

text \<open>Every element below a node, the node included, in document order, each with its
  ancestors (nearest first).\<close>

fun walk :: "node list \<Rightarrow> node \<Rightarrow> (node list \<times> node) list" where
  "walk anc (Text s) = []"
| "walk anc (Elem t a cs) =
     (anc, Elem t a cs) # concat (map (walk (Elem t a cs # anc)) cs)"

definition elements :: "node list \<Rightarrow> (node list \<times> node) list" where
  "elements soup = concat (map (walk []) soup)"

text \<open>\<^verbatim>\<open>soup.select(selector)\<close> and \<^verbatim>\<open>soup.select_one(selector)\<close>\<close>

definition select :: "node list \<Rightarrow> selector \<Rightarrow> node list" where
  "select soup sel = map snd (filter (matches sel) (elements soup))"

definition select_one :: "node list \<Rightarrow> selector \<Rightarrow> node option" where
  "select_one soup sel = (case select soup sel of [] \<Rightarrow> None | e # es \<Rightarrow> Some e)"

text \<open>\<^verbatim>\<open>soup.find_all('a', href=True)\<close>: the anchors that have an \<^verbatim>\<open>href\<close> attribute.\<close>

definition find_all_a_href :: "node list \<Rightarrow> node list" where
  "find_all_a_href soup =
     filter (\<lambda>e. tag_name e = Some ''a'' \<and> get_attr e ''href'' \<noteq> None) (map snd (elements soup))"

subsection \<open>The library and the scraper object\<close>

text \<open>
  The exceptions that pass through the class uncaught. \<^verbatim>\<open>urljoin\<close> and \<^verbatim>\<open>urlparse\<close> raise a
  \<^verbatim>\<open>ValueError\<close> on a text whose host part has an unbalanced square bracket (\<^verbatim>\<open>//[\<close> for
  one); \<^verbatim>\<open>time.sleep\<close> raises a \<^verbatim>\<open>ValueError\<close> on a negative length and an
  \<^verbatim>\<open>OverflowError\<close> on one that is too large. The class has one handler, in
  \<^verbatim>\<open>fetch_page\<close>, and it catches \<^verbatim>\<open>RequestException\<close> only.
\<close>

datatype error = ValueError | OverflowError

text \<open>
  \<open>urljoin E base href\<close> is \<^verbatim>\<open>urljoin(base, href)\<close> and \<open>netloc E u\<close> is
  \<^verbatim>\<open>urlparse(u).netloc\<close>, each with the error it raises, if it raises. \<open>time_sleep E d\<close> is
  the error that \<^verbatim>\<open>time.sleep(d)\<close> raises, \<open>None\<close> when it returns. \<open>http_get E w u\<close> is
  \<^verbatim>\<open>requests.get(u, ...)\<close> followed by \<^verbatim>\<open>raise_for_status()\<close> in the state \<open>w\<close> of the network:
  the text of the response, or \<open>None\<close> for a \<^verbatim>\<open>RequestException\<close>, and the next state of the
  network. The parser is taken to accept every text.
\<close>

record 'w env =
  urljoin :: "string \<Rightarrow> string \<Rightarrow> error + string"
  netloc :: "string \<Rightarrow> error + string"
  bs_parse :: "string \<Rightarrow> node list"
  bs_str :: "node \<Rightarrow> string"
  set_list :: "string list \<Rightarrow> string list"
  time_sleep :: "int \<Rightarrow> error option"
  http_get :: "'w \<Rightarrow> string \<Rightarrow> string option \<times> 'w"

text \<open>
  \<open>set_list E xs\<close> is \<^verbatim>\<open>list(set(xs))\<close>. Python fixes no order for it; all that is known is
  that it lists the elements of \<open>xs\<close>, each once.
\<close>

definition set_list_ok :: "'w env \<Rightarrow> bool" where
  "set_list_ok E = (\<forall>xs. distinct (set_list E xs) \<and> set (set_list E xs) = set xs)"

record scraper =
  base_url :: string
  domain :: string
  output_folder :: string
  delay :: int

text \<open>\<^verbatim>\<open>__init__\<close> (the set \<^verbatim>\<open>scraped_urls\<close> lives in the run state below; creating the
  output folder is taken to succeed).\<close>

definition init :: "'w env \<Rightarrow> string \<Rightarrow> string \<Rightarrow> int \<Rightarrow> error + scraper" where
  "init E url folder d =
     (case netloc E url of
        Inl e \<Rightarrow> Inl e
      | Inr n \<Rightarrow> Inr \<lparr>base_url = url, domain = n, output_folder = folder, delay = d\<rparr>)"

subsection \<open>The three patterns of the fallback\<close>

definition slug_char :: "char \<Rightarrow> bool" where
  "slug_char c = (let n = (of_char c :: nat) in
     (97 \<le> n \<and> n \<le> 122) \<or> (65 \<le> n \<and> n \<le> 90) \<or> (48 \<le> n \<and> n \<le> 57) \<or> c = CHR ''-'')"

definition digit :: "char \<Rightarrow> bool" where
  "digit c = (let n = (of_char c :: nat) in 48 \<le> n \<and> n \<le> 57)"

text \<open>\<^verbatim>\<open>$\<close>: the end of the string, or just before a newline that ends it.\<close>

definition at_end :: "string \<Rightarrow> bool" where
  "at_end s = (s = [] \<or> s = [CHR 0x0A])"

text \<open>\<^verbatim>\<open>[a-zA-Z0-9\-]+/?$\<close>, matched at the start of \<open>s\<close>.\<close>

definition slug_end :: "string \<Rightarrow> bool" where
  "slug_end s =
     (let rest = dropWhile slug_char s in
      takeWhile slug_char s \<noteq> [] \<and>
      (at_end rest \<or> (case rest of [] \<Rightarrow> False | c # r \<Rightarrow> c = CHR ''/'' \<and> at_end r)))"

text \<open>A literal prefix, then the rest of a pattern.\<close>

definition lit :: "string \<Rightarrow> (string \<Rightarrow> bool) \<Rightarrow> string \<Rightarrow> bool" where
  "lit p k s = (startswith s p \<and> k (drop (length p) s))"

text \<open>\<^verbatim>\<open>\d{n}\<close>, then the rest of a pattern.\<close>

definition digits :: "nat \<Rightarrow> (string \<Rightarrow> bool) \<Rightarrow> string \<Rightarrow> bool" where
  "digits n k s = (n \<le> length s \<and> list_all digit (take n s) \<and> k (drop n s))"

text \<open>\<^verbatim>\<open>/(post|blog|article|entry)/[a-zA-Z0-9\-]+/?$\<close>\<close>

definition pat_post :: "string \<Rightarrow> bool" where
  "pat_post = lit ''/'' (\<lambda>s. list_ex (\<lambda>w. lit w (lit ''/'' slug_end) s)
                                [''post'', ''blog'', ''article'', ''entry''])"

text \<open>\<^verbatim>\<open>/\d{4}/\d{2}/\d{2}/[a-zA-Z0-9\-]+/?$\<close>\<close>

definition pat_date :: "string \<Rightarrow> bool" where
  "pat_date = lit ''/'' (digits 4 (lit ''/'' (digits 2 (lit ''/'' (digits 2 (lit ''/'' slug_end))))))"

text \<open>\<^verbatim>\<open>/blog/[a-zA-Z0-9\-]+/?$\<close>\<close>

definition pat_blog :: "string \<Rightarrow> bool" where
  "pat_blog = lit ''/blog/'' slug_end"

text \<open>\<^verbatim>\<open>re.search(p, s)\<close>: the pattern matches at some position of \<open>s\<close>.\<close>

fun re_search :: "(string \<Rightarrow> bool) \<Rightarrow> string \<Rightarrow> bool" where
  "re_search p [] = p []"
| "re_search p (c # cs) = (p (c # cs) \<or> re_search p cs)"

definition post_url :: "string \<Rightarrow> bool" where
  "post_url u = (re_search pat_post u \<or> re_search pat_date u \<or> re_search pat_blog u)"

subsection \<open>\<^verbatim>\<open>find_blog_links\<close>\<close>

definition blog_selectors :: "selector list" where
  "blog_selectors =
    [ [[[Tag ''article''], [Tag ''a'']]],
      [[[Class ''post''], [Tag ''a'']]],
      [[[Class ''blog-post''], [Tag ''a'']]],
      [[[Class ''entry''], [Tag ''a'']]],
      [[[Class ''post-title''], [Tag ''a'']]],
      [[[Class ''blog-entry''], [Tag ''a'']]],
      [[[Class ''post-link'']]],
      [[[Class ''blog-title''], [Tag ''a'']]],
      [[[Tag ''a'', Class ''post-link'']]],
      [[[Tag ''a'', Class ''read-more'']]],
      [[[Tag ''a'', Class ''more-link'']]],
      [[[Tag ''h2''], [Tag ''a'']]],
      [[[Tag ''h1''], [Tag ''a'']]],
      [[[Tag ''h3''], [Tag ''a'']]] ]"

text \<open>
  A \<^verbatim>\<open>for\<close> loop that appends to a list what its body gives for each element in turn. A
  raise in the body ends the loop and passes on.
\<close>

fun gather :: "('a \<Rightarrow> error + 'b list) \<Rightarrow> 'a list \<Rightarrow> error + 'b list" where
  "gather body [] = Inr []"
| "gather body (x # xs) =
     (case body x of
        Inl e \<Rightarrow> Inl e
      | Inr ys \<Rightarrow> (case gather body xs of Inl e \<Rightarrow> Inl e | Inr zs \<Rightarrow> Inr (ys @ zs)))"

text \<open>The body of the inner loop of the first phase, for one matched element: the link it
  adds, if any. Neither \<^verbatim>\<open>urljoin\<close> nor \<^verbatim>\<open>urlparse\<close> is called under a handler.\<close>

definition blog_link_of :: "'w env \<Rightarrow> scraper \<Rightarrow> node \<Rightarrow> error + string list" where
  "blog_link_of E S link =
     (case get_attr link ''href'' of
        None \<Rightarrow> Inr []
      | Some href \<Rightarrow>
          if href \<noteq> [] \<and> \<not> startswith href ''#'' \<and> \<not> startswith href ''javascript:''
          then (case urljoin E (base_url S) href of
                  Inl e \<Rightarrow> Inl e
                | Inr absolute_url \<Rightarrow>
                    (case netloc E absolute_url of
                       Inl e \<Rightarrow> Inl e
                     | Inr n \<Rightarrow> Inr (if n = domain S then [absolute_url] else [])))
          else Inr [])"

text \<open>The first loop: every selector in turn, every element it finds.\<close>

definition selector_links :: "'w env \<Rightarrow> scraper \<Rightarrow> node list \<Rightarrow> error + string list" where
  "selector_links E S soup =
     gather (\<lambda>selector. gather (blog_link_of E S) (select soup selector)) blog_selectors"

text \<open>The body of the second loop, for one anchor.\<close>

definition fallback_link_of :: "'w env \<Rightarrow> scraper \<Rightarrow> node \<Rightarrow> error + string list" where
  "fallback_link_of E S link =
     (case get_attr link ''href'' of
        None \<Rightarrow> Inr []
      | Some href \<Rightarrow>
          (case urljoin E (base_url S) href of
             Inl e \<Rightarrow> Inl e
           | Inr absolute_url \<Rightarrow>
               (case netloc E absolute_url of
                  Inl e \<Rightarrow> Inl e
                | Inr n \<Rightarrow>
                    Inr (if n = domain S \<and> post_url absolute_url then [absolute_url] else []))))"

definition fallback_links :: "'w env \<Rightarrow> scraper \<Rightarrow> node list \<Rightarrow> error + string list" where
  "fallback_links E S soup = gather (fallback_link_of E S) (find_all_a_href soup)"

definition find_blog_links :: "'w env \<Rightarrow> scraper \<Rightarrow> string \<Rightarrow> error + string list" where
  "find_blog_links E S html_content =
     (let soup = bs_parse E html_content
      in case selector_links E S soup of
           Inl e \<Rightarrow> Inl e
         | Inr links \<Rightarrow>
             if links = []
             then (case fallback_links E S soup of
                     Inl e \<Rightarrow> Inl e
                   | Inr found \<Rightarrow> Inr (set_list E (links @ found)))
             else Inr (set_list E links))"

subsection \<open>\<^verbatim>\<open>find_pagination_links\<close>\<close>

definition pagination_selectors :: "selector list" where
  "pagination_selectors =
    [ [[[Class ''pagination''], [Tag ''a'']]],
      [[[Class ''nav-links''], [Tag ''a'']]],
      [[[Class ''page-numbers'']]],
      [[[Tag ''a'', Class ''page-link'']]],
      [[[Class ''pager''], [Tag ''a'']]],
      [[[Class ''pages''], [Tag ''a'']]],
      [[[Tag ''a'', AttrEq ''rel'' ''next'']]],
      [[[Tag ''a'', Class ''next'']]] ]"

definition pagination_link_of :: "'w env \<Rightarrow> scraper \<Rightarrow> node \<Rightarrow> error + string list" where
  "pagination_link_of E S link =
     (case get_attr link ''href'' of
        None \<Rightarrow> Inr []
      | Some href \<Rightarrow>
          if href \<noteq> [] \<and> \<not> startswith href ''#''
          then (case urljoin E (base_url S) href of
                  Inl e \<Rightarrow> Inl e
                | Inr absolute_url \<Rightarrow>
                    (case netloc E absolute_url of
                       Inl e \<Rightarrow> Inl e
                     | Inr n \<Rightarrow> Inr (if n = domain S then [absolute_url] else [])))
          else Inr [])"

definition find_pagination_links :: "'w env \<Rightarrow> scraper \<Rightarrow> string \<Rightarrow> error + string list" where
  "find_pagination_links E S html_content =
     (let soup = bs_parse E html_content
      in case gather (\<lambda>selector. gather (pagination_link_of E S) (select soup selector))
                     pagination_selectors of
           Inl e \<Rightarrow> Inl e
         | Inr pagination_links \<Rightarrow> Inr (set_list E pagination_links))"

subsection \<open>\<^verbatim>\<open>extract_blog_content\<close>\<close>

record post_data =
  url :: string
  title :: string
  date :: string
  author :: string
  content :: string
  raw_html :: string
  categories :: "string list"

text \<open>
  The loops over a selector list that stop at the first selector with a match
  (\<^verbatim>\<open>for selector in selectors: elem = soup.select_one(selector); if elem: ...; break\<close>):
  the selector that matched and its first element.
\<close>

fun first_match :: "node list \<Rightarrow> selector list \<Rightarrow> (selector \<times> node) option" where
  "first_match soup [] = None"
| "first_match soup (selector # rest) =
     (case select_one soup selector of
        Some elem \<Rightarrow> Some (selector, elem)
      | None \<Rightarrow> first_match soup rest)"

text \<open>The same loop with \<^verbatim>\<open>soup.select\<close>: all elements of the first selector that has any.\<close>

fun first_select :: "node list \<Rightarrow> selector list \<Rightarrow> node list" where
  "first_select soup [] = []"
| "first_select soup (selector # rest) =
     (if select soup selector \<noteq> [] then select soup selector else first_select soup rest)"

definition title_selectors :: "selector list" where
  "title_selectors =
    [ [[[Tag ''h1'']]],
      [[[Tag ''h1'', Class ''post-title'']]],
      [[[Tag ''h1'', Class ''entry-title'']]],
      [[[Class ''post-title'']]],
      [[[Class ''entry-title'']]],
      [[[Tag ''article''], [Tag ''h1'']]] ]"

definition meta_published_time :: selector where
  "meta_published_time = [[[Tag ''meta'', AttrEq ''property'' ''article:published_time'']]]"

definition date_selectors :: "selector list" where
  "date_selectors =
    [ [[[Class ''post-date'']]],
      [[[Class ''entry-date'']]],
      [[[Class ''published'']]],
      [[[Tag ''time'']]],
      [[[Class ''date'']]],
      meta_published_time,
      [[[Tag ''span'', Class ''date'']]],
      [[[Class ''post-meta''], [Tag ''time'']]] ]"

definition meta_author :: selector where
  "meta_author = [[[Tag ''meta'', AttrEq ''name'' ''author'']]]"

definition author_selectors :: "selector list" where
  "author_selectors =
    [ [[[Class ''author'']]],
      [[[Class ''entry-author'']]],
      [[[Tag ''a'', Class ''author'']]],
      [[[Class ''post-author'']]],
      meta_author,
      [[[Class ''author-name'']]],
      [[[Class ''byline'']]] ]"

definition category_selectors :: "selector list" where
  "category_selectors =
    [ [[[Class ''category'']]],
      [[[Class ''categories'']]],
      [[[Class ''tags'']]],
      [[[Class ''post-tags'']]],
      [[[Class ''entry-tags'']]],
      [[[Class ''post-categories'']]],
      [[[Tag ''a'', AttrEq ''rel'' ''category'']]] ]"

definition content_selectors :: "selector list" where
  "content_selectors =
    [ [[[Tag ''article'']]],
      [[[Class ''post-content'']]],
      [[[Class ''entry-content'']]],
      [[[Class ''content'']]],
      [[[Class ''post'']]],
      [[[Class ''blog-post'']]],
      [[[Class ''article-content'']]] ]"

definition script_style :: selector where
  "script_style = [[[Tag ''script'']], [[Tag ''style'']]]"

text \<open>
  \<^verbatim>\<open>for element in content_elem.select("script, style"): element.decompose()\<close>: every
  descendant that is a \<^verbatim>\<open>script\<close> or a \<^verbatim>\<open>style\<close> element is taken out of the tree. (The two
  compounds have no combinator, so the ancestors play no part in the match.)
\<close>

fun decompose_all :: "selector \<Rightarrow> node \<Rightarrow> node" where
  "decompose_all sel (Text s) = Text s"
| "decompose_all sel (Elem t a cs) =
     Elem t a (map (decompose_all sel) (filter (\<lambda>c. \<not> matches sel ([], c)) cs))"

text \<open>\<^verbatim>\<open>elem.get("content", "")\<close>\<close>

definition get_content :: "node \<Rightarrow> string" where
  "get_content e = (case get_attr e ''content'' of None \<Rightarrow> [] | Some v \<Rightarrow> v)"

definition extract_title :: "node list \<Rightarrow> string" where
  "extract_title soup =
     (case first_match soup title_selectors of
        None \<Rightarrow> []
      | Some (selector, title_elem) \<Rightarrow> strip (get_text title_elem))"

definition extract_date :: "node list \<Rightarrow> string" where
  "extract_date soup =
     (case first_match soup date_selectors of
        None \<Rightarrow> []
      | Some (selector, date_elem) \<Rightarrow>
          if selector = meta_published_time then get_content date_elem
          else strip (get_text date_elem))"

definition extract_author :: "node list \<Rightarrow> string" where
  "extract_author soup =
     (case first_match soup author_selectors of
        None \<Rightarrow> []
      | Some (selector, author_elem) \<Rightarrow>
          if selector = meta_author then get_content author_elem
          else strip (get_text author_elem))"

definition extract_categories :: "node list \<Rightarrow> string list" where
  "extract_categories soup =
     map (\<lambda>cat. strip (get_text cat)) (first_select soup category_selectors)"

definition extract_blog_content :: "'w env \<Rightarrow> string \<Rightarrow> string \<Rightarrow> post_data" where
  "extract_blog_content E html_content u =
     (let soup = bs_parse E html_content;
          data = \<lparr>url = u, title = extract_title soup, date = extract_date soup,
                  author = extract_author soup, content = [], raw_html = [],
                  categories = extract_categories soup\<rparr>
      in case first_match soup content_selectors of
           None \<Rightarrow> data
         | Some (selector, content_elem) \<Rightarrow>
             (let cleaned = decompose_all script_style content_elem
              in data\<lparr>content := strip (get_text cleaned), raw_html := bs_str E cleaned\<rparr>))"

subsection \<open>\<^verbatim>\<open>save_post\<close>\<close>

text \<open>\<^verbatim>\<open>\w\<close> of a \<^verbatim>\<open>str\<close> pattern: the alphanumeric characters and the underscore. Below 128
  these are the ASCII letters and digits; from 128 to 255 they are the letters and the
  numeric characters of Latin-1.\<close>

definition word_char :: "char \<Rightarrow> bool" where
  "word_char c = (let n = (of_char c :: nat) in
     (97 \<le> n \<and> n \<le> 122) \<or> (65 \<le> n \<and> n \<le> 90) \<or> (48 \<le> n \<and> n \<le> 57) \<or> n = 95 \<or>
     n = 170 \<or> n = 178 \<or> n = 179 \<or> n = 181 \<or> n = 185 \<or> n = 186 \<or>
     (188 \<le> n \<and> n \<le> 190) \<or> (192 \<le> n \<and> n \<le> 214) \<or> (216 \<le> n \<and> n \<le> 246) \<or> 248 \<le> n)"

text \<open>\<^verbatim>\<open>re.sub(r'[^\w\-]', '_', s)\<close>\<close>

definition sanitize :: "string \<Rightarrow> string" where
  "sanitize s = map (\<lambda>c. if word_char c \<or> c = CHR ''-'' then c else CHR ''_'') s"

definition filename_of :: "post_data \<Rightarrow> string" where
  "filename_of p =
     (let filename =
        (if title p = []
         then (let f = sanitize (last (split (url p) (CHR ''/''))) in if f = [] then ''post'' else f)
         else sanitize (title p))
      in take 50 filename @ ''.json'')"

text \<open>\<^verbatim>\<open>os.path.join(a, b)\<close> on a POSIX system.\<close>

definition path_join :: "string \<Rightarrow> string \<Rightarrow> string" where
  "path_join a b =
     (if startswith b ''/'' then b
      else if a = [] \<or> last a = CHR ''/'' then a @ b
      else a @ ''/'' @ b)"

subsection \<open>The state of a run\<close>

datatype event =
    Starting string
  | FetchError string
  | HomepageFailed string
  | PaginationPage string
  | Found nat
  | Scraping nat nat string
  | Saved string
  | Completed nat

text \<open>
  \<open>net\<close> is the state of the network, \<open>requests\<close> the URLs handed to \<^verbatim>\<open>requests.get\<close> so
  far, \<open>log\<close> the messages logged so far, \<open>files\<close> the files written so far (path and
  record, in the order of the writes), \<open>scraped_urls\<close> the set of the same name of the
  scraper object. Writing a file is taken to succeed; \<^verbatim>\<open>time.sleep\<close> has no effect on
  this state.
\<close>

record 'w state =
  net :: 'w
  requests :: "string list"
  log :: "event list"
  files :: "(string \<times> post_data) list"
  scraped_urls :: "string set"

definition logging :: "event \<Rightarrow> 'w state \<Rightarrow> 'w state" where
  "logging e st = st\<lparr>log := log st @ [e]\<rparr>"

text \<open>\<^verbatim>\<open>fetch_page\<close>: \<open>http_get\<close> gives \<open>None\<close> where \<^verbatim>\<open>requests.get\<close> or
  \<^verbatim>\<open>raise_for_status\<close> raises a \<^verbatim>\<open>RequestException\<close>, and the text of the response
  otherwise.\<close>

definition fetch_page :: "'w env \<Rightarrow> 'w state \<Rightarrow> string \<Rightarrow> string option \<times> 'w state" where
  "fetch_page E st u =
     (case http_get E (net st) u of
        (r, w) \<Rightarrow>
          (let st' = st\<lparr>net := w, requests := requests st @ [u]\<rparr>
           in case r of
                Some text \<Rightarrow> (Some text, st')
              | None \<Rightarrow> (None, logging (FetchError u) st')))"

text \<open>\<^verbatim>\<open>if html_content:\<close> holds for a string that is not empty; \<^verbatim>\<open>None\<close> and \<^verbatim>\<open>""\<close> are
  both false.\<close>

fun truthy :: "string option \<Rightarrow> bool" where
  "truthy None = False"
| "truthy (Some s) = (s \<noteq> [])"

definition save_post :: "scraper \<Rightarrow> 'w state \<Rightarrow> post_data \<Rightarrow> string \<times> 'w state" where
  "save_post S st p =
     (let filepath = path_join (output_folder S) (filename_of p)
      in (filepath, logging (Saved filepath) (st\<lparr>files := files st @ [(filepath, p)]\<rparr>)))"

subsection \<open>\<^verbatim>\<open>scrape\<close>\<close>

text \<open>The local variables of \<^verbatim>\<open>scrape\<close> during the \<^verbatim>\<open>while\<close> loop, with the state of the
  run.\<close>

record 'w frontier =
  blog_links :: "string list"
  pagination_links :: "string list"
  pages_scraped :: int
  run :: "'w state"

text \<open>
  The block under \<^verbatim>\<open>if page_html:\<close>, which classifies the page: the new values of
  \<^verbatim>\<open>blog_links\<close> and \<^verbatim>\<open>pagination_links\<close>. \<open>rest\<close> is the queue after its head was taken.
\<close>

definition page_links ::
  "'w env \<Rightarrow> scraper \<Rightarrow> string list \<Rightarrow> string list \<Rightarrow> string option
     \<Rightarrow> error + (string list \<times> string list)" where
  "page_links E S links rest page_html =
     (if truthy page_html
      then (case find_blog_links E S (the page_html) of
              Inl e \<Rightarrow> Inl e
            | Inr new_links \<Rightarrow>
                (case find_pagination_links E S (the page_html) of
                   Inl e \<Rightarrow> Inl e
                 | Inr new_pagination \<Rightarrow>
                     Inr (links @ new_links,
                          rest @ filter (\<lambda>link. link \<notin> set rest) new_pagination)))
      else Inr (links, rest))"

text \<open>
  The body of the \<^verbatim>\<open>while\<close> loop. The loop runs it only on a queue that is not empty. A
  raise leaves the loop, and \<^verbatim>\<open>scrape\<close>, with the state of the run as it is then: the raise
  of the classification comes before \<^verbatim>\<open>pages_scraped += 1\<close>, that of \<^verbatim>\<open>time.sleep\<close> after
  it.
\<close>

definition page_step :: "'w env \<Rightarrow> scraper \<Rightarrow> 'w frontier \<Rightarrow> (error \<times> 'w state) + 'w frontier" where
  "page_step E S f =
     (case pagination_links f of
        [] \<Rightarrow> Inr f
      | next_page_url # rest \<Rightarrow>
          (case fetch_page E (logging (PaginationPage next_page_url) (run f)) next_page_url of
             (page_html, st) \<Rightarrow>
               (case page_links E S (blog_links f) rest page_html of
                  Inl e \<Rightarrow> Inl (e, st)
                | Inr (links, queue) \<Rightarrow>
                    (case time_sleep E (delay S) of
                       Some e \<Rightarrow> Inl (e, st)
                     | None \<Rightarrow>
                         Inr \<lparr>blog_links = links, pagination_links = queue,
                              pages_scraped = pages_scraped f + 1, run = st\<rparr>))))"

function frontier_loop ::
  "'w env \<Rightarrow> scraper \<Rightarrow> int \<Rightarrow> 'w frontier \<Rightarrow> (error \<times> 'w state) + 'w frontier" where
  "frontier_loop E S max_pages f =
     (if pagination_links f \<noteq> [] \<and> pages_scraped f < max_pages
      then (case page_step E S f of
              Inl x \<Rightarrow> Inl x
            | Inr f' \<Rightarrow> frontier_loop E S max_pages f')
      else Inr f)"
  by pat_completeness auto
termination
  by (relation "measure (\<lambda>(E, S, max_pages, f). nat (max_pages - pages_scraped f))")
     (auto simp: page_step_def split: list.splits prod.splits sum.splits option.splits)

text \<open>\<^verbatim>\<open>xs[:k]\<close>: a negative \<open>k\<close> counts from the end.\<close>

definition slice_to :: "'a list \<Rightarrow> int \<Rightarrow> 'a list" where
  "slice_to xs k = (if 0 \<le> k then take (nat k) xs else take (length xs - nat (- k)) xs)"

text \<open>The body of the \<^verbatim>\<open>for\<close> loop over the posts, for one link; \<open>n\<close> is
  \<^verbatim>\<open>len(blog_links)\<close> and \<open>i\<close> the index that \<^verbatim>\<open>enumerate\<close> counts from 1. The
  \<^verbatim>\<open>continue\<close> passes over \<^verbatim>\<open>time.sleep\<close>.\<close>

definition post_step ::
  "'w env \<Rightarrow> scraper \<Rightarrow> nat \<Rightarrow> nat \<Rightarrow> string \<Rightarrow> 'w state \<Rightarrow> (error \<times> 'w state) + 'w state" where
  "post_step E S n i link st =
     (if link \<in> scraped_urls st then Inr st
      else (case fetch_page E (logging (Scraping i n link) st) link of
              (html_content, st1) \<Rightarrow>
                (let st2 =
                   (if truthy html_content
                    then (case save_post S st1 (extract_blog_content E (the html_content) link) of
                            (filepath, st2) \<Rightarrow> st2\<lparr>scraped_urls := insert link (scraped_urls st2)\<rparr>)
                    else st1)
                 in case time_sleep E (delay S) of
                      Some e \<Rightarrow> Inl (e, st2)
                    | None \<Rightarrow> Inr st2)))"

fun scrape_posts ::
  "'w env \<Rightarrow> scraper \<Rightarrow> nat \<Rightarrow> nat \<Rightarrow> string list \<Rightarrow> 'w state \<Rightarrow> (error \<times> 'w state) + 'w state" where
  "scrape_posts E S n i [] st = Inr st"
| "scrape_posts E S n i (link # links) st =
     (case post_step E S n i link st of
        Inl x \<Rightarrow> Inl x
      | Inr st' \<Rightarrow> scrape_posts E S n (i + 1) links st')"

text \<open>The links handed to the \<^verbatim>\<open>for\<close> loop: \<^verbatim>\<open>list(set(blog_links))[:max_posts]\<close>.\<close>

definition posts_to_scrape :: "'w env \<Rightarrow> int \<Rightarrow> string list \<Rightarrow> string list" where
  "posts_to_scrape E max_posts links = slice_to (set_list E links) max_posts"

text \<open>From the seed page's markup to the end of the \<^verbatim>\<open>while\<close> loop: the two classifications
  of the seed page, the counter set to 1, the loop.\<close>

definition walk_frontier ::
  "'w env \<Rightarrow> scraper \<Rightarrow> int \<Rightarrow> string \<Rightarrow> 'w state \<Rightarrow> (error \<times> 'w state) + 'w frontier" where
  "walk_frontier E S max_pages html_content st =
     (case find_blog_links E S html_content of
        Inl e \<Rightarrow> Inl (e, st)
      | Inr links \<Rightarrow>
          (case find_pagination_links E S html_content of
             Inl e \<Rightarrow> Inl (e, st)
           | Inr queue \<Rightarrow>
               frontier_loop E S max_pages
                 \<lparr>blog_links = links, pagination_links = queue, pages_scraped = 1, run = st\<rparr>))"

definition scrape ::
  "'w env \<Rightarrow> scraper \<Rightarrow> int \<Rightarrow> int \<Rightarrow> 'w state \<Rightarrow> (error \<times> 'w state) + 'w state" where
  "scrape E S max_posts max_pages st0 =
     (case fetch_page E (logging (Starting (base_url S)) st0) (base_url S) of
        (html_content, st) \<Rightarrow>
          if \<not> truthy html_content then Inr (logging (HomepageFailed (base_url S)) st)
          else (case walk_frontier E S max_pages (the html_content) st of
                  Inl x \<Rightarrow> Inl x
                | Inr f \<Rightarrow>
                    (let links = posts_to_scrape E max_posts (blog_links f);
                         st = logging (Found (length links)) (run f)
                     in case scrape_posts E S (length links) 1 links st of
                          Inl x \<Rightarrow> Inl x
                        | Inr st \<Rightarrow> Inr (logging (Completed (card (scraped_urls st))) st))))"

text \<open>The state in which a walk, or a run, ends, by a return or by a raise.\<close>

definition walk_state :: "(error \<times> 'w state) + 'w frontier \<Rightarrow> 'w state" where
  "walk_state r = (case r of Inl (e, st) \<Rightarrow> st | Inr f \<Rightarrow> run f)"

definition run_state :: "(error \<times> 'w state) + 'w state \<Rightarrow> 'w state" where
  "run_state r = (case r of Inl (e, st) \<Rightarrow> st | Inr st \<Rightarrow> st)"


subsection \<open>An example site\<close>

text \<open>
  Concrete library functions and pages, for the examples that follow the theorems.
  \<open>netloc_text\<close> is what stands between \<^verbatim>\<open>//\<close> after the scheme and the next \<^verbatim>\<open>/\<close>, \<^verbatim>\<open>?\<close> or
  \<^verbatim>\<open>#\<close>; \<^verbatim>\<open>urlparse\<close> and \<^verbatim>\<open>urljoin\<close> raise when it holds one of the two square brackets
  without the other. \<open>join_text\<close> gives what \<^verbatim>\<open>urljoin\<close> gives on the kinds of \<^verbatim>\<open>href\<close> that the
  examples use: the empty one, a fragment, a URL with a scheme of its own, one that starts
  with \<^verbatim>\<open>//\<close>, and an absolute path without dot segments. \<open>parse_demo\<close> lists the parse of
  each example page; \<open>str_demo\<close> writes a tree back as markup. A Python \<^verbatim>\<open>set\<close> is listed
  without repetition, each element where it occurs last. \<^verbatim>\<open>time.sleep\<close> raises on a negative length and on one above
  the largest that fits its clock. The network is a table from URLs to response texts; a
  URL that is not in the table does not answer.
\<close>

definition alpha :: "char \<Rightarrow> bool" where
  "alpha c = (let n = (of_char c :: nat) in (97 \<le> n \<and> n \<le> 122) \<or> (65 \<le> n \<and> n \<le> 90))"

definition has_scheme :: "string \<Rightarrow> bool" where
  "has_scheme u = (let s = takeWhile (\<lambda>c. c \<noteq> CHR '':'') u in
     length s < length u \<and> s \<noteq> [] \<and> alpha (hd s) \<and>
     list_all (\<lambda>c. alpha c \<or> digit c \<or> c \<in> set ''+-.'') s)"

definition after_scheme :: "string \<Rightarrow> string" where
  "after_scheme u = (if has_scheme u then drop 1 (dropWhile (\<lambda>c. c \<noteq> CHR '':'') u) else u)"

definition netloc_text :: "string \<Rightarrow> string" where
  "netloc_text u = (let r = after_scheme u in
     if startswith r ''//'' then takeWhile (\<lambda>c. c \<notin> set ''/?#'') (drop 2 r) else [])"

definition bad_host :: "string \<Rightarrow> bool" where
  "bad_host n = ((CHR ''['' \<in> set n) \<noteq> (CHR '']'' \<in> set n))"

definition netloc_demo :: "string \<Rightarrow> error + string" where
  "netloc_demo u = (if bad_host (netloc_text u) then Inl ValueError else Inr (netloc_text u))"

definition origin :: "string \<Rightarrow> string" where
  "origin u = take (length u - length (after_scheme u)) u @ ''//'' @ netloc_text u"

definition join_text :: "string \<Rightarrow> string \<Rightarrow> string" where
  "join_text base href =
     (if href = [] then base
      else if startswith href ''#'' then
        takeWhile (\<lambda>c. c \<noteq> CHR ''#'') base @ (if href = ''#'' then [] else href)
      else if has_scheme href then href
      else if startswith href ''//'' then take (length base - length (after_scheme base)) base @ href
      else if startswith href ''/'' then origin base @ href
      else href)"

definition urljoin_demo :: "string \<Rightarrow> string \<Rightarrow> error + string" where
  "urljoin_demo base href =
     (if bad_host (netloc_text base) \<or> bad_host (netloc_text href) then Inl ValueError
      else Inr (join_text base href))"

definition sleep_demo :: "int \<Rightarrow> error option" where
  "sleep_demo d =
     (if d < 0 then Some ValueError else if 9223372036 < d then Some OverflowError else None)"

fun str_demo :: "node \<Rightarrow> string" where
  "str_demo (Text s) = s"
| "str_demo (Elem t a cs) =
     ''<'' @ t @ concat (map (\<lambda>(k, v). '' '' @ k @ ''='' @ [CHR 0x22] @ v @ [CHR 0x22]) a) @ ''>''
     @ concat (map str_demo cs) @ ''</'' @ t @ ''>''"

definition about_html :: string where
  \<open>about_html = ''<a href="/about">About</a>''\<close>

definition list_html :: string where
  \<open>list_html = ''<article><a href="/blog/a">A</a></article>''\<close>

definition frag_html :: string where
  \<open>frag_html = ''<a href="#/blog/x">x</a>''\<close>

definition js_html :: string where
  \<open>js_html = ''<a class="page-numbers" href="javascript://example.com/x">2</a>''\<close>

definition bracket_html :: string where
  \<open>bracket_html = ''<a href="//[">x</a>''\<close>

definition seed_html :: string where
  \<open>seed_html = ''<article><a href="/blog/a">A</a></article><a class="next" href="/blog">next</a>''\<close>

definition seed2_html :: string where
  \<open>seed2_html = ''<article><a href="/blog/a">A</a></article><a class="next" href="/blog/page/2">next</a>''\<close>

definition post_html :: string where
  \<open>post_html = ''<h1>Title</h1><meta property="article:published_time" content="2024-01-01"><div class="entry-content"><script>x()</script><p> One </p><p>Two </p></div>''\<close>

definition cats_html :: string where
  \<open>cats_html = ''<span class="category"> A</span><span class="category">B </span><span class="category">C</span>''\<close>

definition post_soup :: "node list" where
  "post_soup =
     [Elem ''h1'' [] [Text ''Title''],
      Elem ''meta'' [(''property'', ''article:published_time''), (''content'', ''2024-01-01'')] [],
      Elem ''div'' [(''class'', ''entry-content'')]
        [Elem ''script'' [] [Text ''x()''], Elem ''p'' [] [Text '' One ''],
         Elem ''p'' [] [Text ''Two '']]]"

definition cats_soup :: "node list" where
  "cats_soup =
     [Elem ''span'' [(''class'', ''category'')] [Text '' A''],
      Elem ''span'' [(''class'', ''category'')] [Text ''B ''],
      Elem ''span'' [(''class'', ''category'')] [Text ''C'']]"

definition parse_demo :: "string \<Rightarrow> node list" where
  "parse_demo s =
     (if s = about_html then [Elem ''a'' [(''href'', ''/about'')] [Text ''About'']]
      else if s = list_html then
        [Elem ''article'' [] [Elem ''a'' [(''href'', ''/blog/a'')] [Text ''A'']]]
      else if s = frag_html then [Elem ''a'' [(''href'', ''#/blog/x'')] [Text ''x'']]
      else if s = js_html then
        [Elem ''a'' [(''class'', ''page-numbers''), (''href'', ''javascript://example.com/x'')]
           [Text ''2'']]
      else if s = bracket_html then [Elem ''a'' [(''href'', ''//['')] [Text ''x'']]
      else if s = seed_html then
        [Elem ''article'' [] [Elem ''a'' [(''href'', ''/blog/a'')] [Text ''A'']],
         Elem ''a'' [(''class'', ''next''), (''href'', ''/blog'')] [Text ''next'']]
      else if s = seed2_html then
        [Elem ''article'' [] [Elem ''a'' [(''href'', ''/blog/a'')] [Text ''A'']],
         Elem ''a'' [(''class'', ''next''), (''href'', ''/blog/page/2'')] [Text ''next'']]
      else if s = post_html then post_soup
      else if s = cats_html then cats_soup
      else [])"

definition demo_env :: "(string \<times> string) list env" where
  "demo_env =
     \<lparr>urljoin = urljoin_demo, netloc = netloc_demo, bs_parse = parse_demo, bs_str = str_demo,
      set_list = remdups, time_sleep = sleep_demo, http_get = (\<lambda>w u. (map_of w u, w))\<rparr>"


text \<open>The scraper that \<^verbatim>\<open>BlogScraper("https://example.com/blog", "posts", 1)\<close> builds.\<close>

definition demo :: scraper where
  "demo = \<lparr>base_url = ''https://example.com/blog'', domain = ''example.com'',
           output_folder = ''posts'', delay = 1\<rparr>"

text \<open>Five states of the network: the site answers; only the seed page answers; nothing
  answers; the seed page is empty; the seed page leads to a second listing page, which
  holds a reference that does not resolve.\<close>

definition site_up :: "(string \<times> string) list" where
  "site_up = [(''https://example.com/blog'', seed_html), (''https://example.com/blog/a'', post_html)]"



definition site_empty :: "(string \<times> string) list" where
  "site_empty = [(''https://example.com/blog'', [])]"

definition site_bracket :: "(string \<times> string) list" where
  "site_bracket =
     [(''https://example.com/blog'', seed2_html),
      (''https://example.com/blog/page/2'', bracket_html),
      (''https://example.com/blog/a'', post_html)]"

definition start :: "(string \<times> string) list \<Rightarrow> (string \<times> string) list state" where
  "start w = \<lparr>net = w, requests = [], log = [], files = [], scraped_urls = {}\<rparr>"

subsection \<open>The file name, as the specification words it\<close>

text \<open>
  The specification derives the name from the title, or from the final segment of the path
  of the URL when the title is empty, by replacing the characters outside the class,
  cutting at 50 and appending the extension. \<open>url_path\<close> is the path of a URL: what follows
  the scheme and the host, up to the query or the fragment. \<open>claimed_filename\<close> is the
  specification's reading, to be compared with \<open>filename_of\<close>, which is the code.
\<close>

definition url_path :: "string \<Rightarrow> string" where
  "url_path u =
     (let r = after_scheme u;
          r = (if startswith r ''//'' then dropWhile (\<lambda>c. c \<notin> set ''/?#'') (drop 2 r) else r)
      in takeWhile (\<lambda>c. c \<notin> set ''?#'') r)"

definition claimed_filename :: "post_data \<Rightarrow> string" where
  "claimed_filename p =
     take 50 (sanitize (if title p = [] then last (split (url_path (url p)) (CHR ''/''))
                        else title p))
     @ ''.json''"

definition slash_post :: post_data where
  "slash_post = \<lparr>url = ''https://example.com/blog/x/'', title = [], date = [], author = [],
                  content = [], raw_html = [], categories = []\<rparr>"

definition query_post :: post_data where
  "query_post = \<lparr>url = ''https://example.com/post?next=/a/b'', title = [], date = [],
                  author = [], content = [], raw_html = [], categories = []\<rparr>"

definition hello_post :: post_data where
  "hello_post = \<lparr>url = ''https://example.com/blog/hello'', title = ''Hello, World! - Part 1'',
                  date = [], author = [], content = [], raw_html = [], categories = []\<rparr>"

section \<open>Properties\<close>

subsection \<open>Link classification\<close>

lemma set_list_Nil: "set_list_ok E \<Longrightarrow> set_list E [] = []"
  unfolding set_list_ok_def by (metis set_empty)

lemma gather_Nil: "(\<And>x. x \<in> set xs \<Longrightarrow> body x = Inr []) \<Longrightarrow> gather body xs = Inr []"
  by (induction xs) auto

lemma get_attr_find_all: "a \<in> set (find_all_a_href soup) \<Longrightarrow> \<exists>h. get_attr a ''href'' = Some h"
  by (auto simp: find_all_a_href_def)

text \<open>
  Where every reference of the page resolves, a page on which no post-link selector finds
  an element, and on which no anchor resolves to a URL of the scraper's domain that matches
  one of the three patterns, yields no links. The fallback is entered only when the
  selector phase found nothing: when it found a link, the result is the set of the links of
  the selector phase alone.
\<close>

lemma find_blog_links_no_match:
  assumes ok: "set_list_ok E"
    and sel: "\<forall>sel \<in> set blog_selectors. select (bs_parse E html) sel = []"
    and anchors: "\<forall>a \<in> set (find_all_a_href (bs_parse E html)). \<forall>href.
                    get_attr a ''href'' = Some href \<longrightarrow>
                    (\<exists>u n. urljoin E (base_url S) href = Inr u \<and> netloc E u = Inr n \<and>
                           \<not> (n = domain S \<and> post_url u))"
  shows "find_blog_links E S html = Inr []"
proof -
  have s: "selector_links E S (bs_parse E html) = Inr []"
    unfolding selector_links_def using sel by (intro gather_Nil) simp
  have f: "fallback_links E S (bs_parse E html) = Inr []"
    unfolding fallback_links_def
  proof (rule gather_Nil)
    fix a assume a: "a \<in> set (find_all_a_href (bs_parse E html))"
    then obtain href where g: "get_attr a ''href'' = Some href"
      using get_attr_find_all by blast
    with a anchors obtain u n where
      "urljoin E (base_url S) href = Inr u" "netloc E u = Inr n" "\<not> (n = domain S \<and> post_url u)"
      by blast
    with g show "fallback_link_of E S a = Inr []"
      by (auto simp: fallback_link_of_def)
  qed
  show ?thesis
    by (simp add: find_blog_links_def Let_def s f set_list_Nil [OF ok])
qed

lemma find_blog_links_selector_phase:
  "selector_links E S (bs_parse E html) = Inr links \<Longrightarrow> links \<noteq> [] \<Longrightarrow>
   find_blog_links E S html = Inr (set_list E links)"
  by (simp add: find_blog_links_def Let_def)

lemma about_page_no_links: "find_blog_links demo_env demo about_html = Inr []"
  by code_simp

lemma list_page_links:
  "find_blog_links demo_env demo list_html = Inr [''https://example.com/blog/a'']"
  by code_simp

lemma init_demo: "init demo_env ''https://example.com/blog'' ''posts'' 1 = Inr demo"
  by code_simp

text \<open>
  Claim C1 says that such a page yields the empty set, for every page. The call
  \<^verbatim>\<open>urljoin(self.base_url, href)\<close> of the fallback is under no handler, and \<^verbatim>\<open>urljoin\<close> raises
  on \<^verbatim>\<open>href="//["\<close>. On the page that holds this one anchor no selector finds an element and
  no anchor resolves to a URL at all, and \<open>find_blog_links\<close> raises instead of returning the
  empty set.
\<close>

theorem find_blog_links_raises_on_bracket_href:
  "list_all (\<lambda>sel. select (bs_parse demo_env bracket_html) sel = []) blog_selectors \<and>
   find_all_a_href (bs_parse demo_env bracket_html) = [Elem ''a'' [(''href'', ''//['')] [Text ''x'']] \<and>
   urljoin demo_env (base_url demo) ''//['' = Inl ValueError \<and>
   find_blog_links demo_env demo bracket_html = Inl ValueError"
  by code_simp

text \<open>
  Claim C2 says that an anchor whose \<^verbatim>\<open>href\<close> starts with \<^verbatim>\<open>#\<close> or with \<^verbatim>\<open>javascript:\<close> never
  contributes to a returned set. The first loop of \<open>find_blog_links\<close> tests both prefixes,
  its fallback tests neither, and \<open>find_pagination_links\<close> tests only the first. The code at
  two pages: a lone anchor with \<^verbatim>\<open>href="#/blog/x"\<close> is returned by the fallback of
  \<open>find_blog_links\<close>, and a page-number anchor with \<^verbatim>\<open>href="javascript://example.com/x"\<close> is
  returned by \<open>find_pagination_links\<close>.
\<close>

theorem fragment_and_script_hrefs_returned:
  "startswith ''#/blog/x'' ''#'' \<and>
   get_attr (hd (bs_parse demo_env frag_html)) ''href'' = Some ''#/blog/x'' \<and>
   find_blog_links demo_env demo frag_html = Inr [''https://example.com/blog#/blog/x''] \<and>
   startswith ''javascript://example.com/x'' ''javascript:'' \<and>
   get_attr (hd (bs_parse demo_env js_html)) ''href'' = Some ''javascript://example.com/x'' \<and>
   find_pagination_links demo_env demo js_html = Inr [''javascript://example.com/x'']"
  by code_simp

subsection \<open>The frontier\<close>

declare frontier_loop.simps [simp del]

lemma fetch_page_effect:
  "fetch_page E st u = (r, st') \<Longrightarrow>
   requests st' = requests st @ [u] \<and> files st' = files st \<and> scraped_urls st' = scraped_urls st"
  by (auto simp: fetch_page_def logging_def Let_def split: prod.splits option.splits)

lemma page_step_Cons:
  "pagination_links f = u # rest \<Longrightarrow>
   fetch_page E (logging (PaginationPage u) (run f)) u = (r, st') \<Longrightarrow>
   page_step E S f =
     (case page_links E S (blog_links f) rest r of
        Inl e \<Rightarrow> Inl (e, st')
      | Inr (links, queue) \<Rightarrow>
          (case time_sleep E (delay S) of
             Some e \<Rightarrow> Inl (e, st')
           | None \<Rightarrow> Inr \<lparr>blog_links = links, pagination_links = queue,
                          pages_scraped = pages_scraped f + 1, run = st'\<rparr>))"
  by (simp add: page_step_def)

lemma page_step_effect:
  assumes "pagination_links f = u # rest"
  shows "requests (walk_state (page_step E S f)) = requests (run f) @ [u] \<and>
         files (walk_state (page_step E S f)) = files (run f) \<and>
         scraped_urls (walk_state (page_step E S f)) = scraped_urls (run f) \<and>
         (\<forall>f'. page_step E S f = Inr f' \<longrightarrow> pages_scraped f' = pages_scraped f + 1)"
proof -
  obtain r st' where fp: "fetch_page E (logging (PaginationPage u) (run f)) u = (r, st')"
    by (cases "fetch_page E (logging (PaginationPage u) (run f)) u") auto
  have e: "requests st' = requests (run f) @ [u] \<and> files st' = files (run f) \<and>
           scraped_urls st' = scraped_urls (run f)"
    using fetch_page_effect [OF fp] by (simp add: logging_def)
  show ?thesis
    unfolding page_step_Cons [OF assms fp]
    using e by (auto simp: walk_state_def split: sum.splits option.splits prod.splits)
qed

lemma page_step_Inr:
  assumes "pagination_links f = u # rest" and "page_step E S f = Inr f'"
  shows "pages_scraped f' = pages_scraped f + 1 \<and> requests (run f') = requests (run f) @ [u] \<and>
         files (run f') = files (run f) \<and> scraped_urls (run f') = scraped_urls (run f)"
  using page_step_effect [OF assms(1), of E S] assms(2) by (simp add: walk_state_def)

lemma page_step_Inl:
  assumes "pagination_links f = u # rest" and "page_step E S f = Inl (e, st')"
  shows "requests st' = requests (run f) @ [u] \<and>
         files st' = files (run f) \<and> scraped_urls st' = scraped_urls (run f)"
  using page_step_effect [OF assms(1), of E S] assms(2) by (simp add: walk_state_def)

lemma frontier_loop_unfold:
  assumes "pagination_links f = u # rest" and "pages_scraped f < m"
  shows "frontier_loop E S m f =
           (case page_step E S f of Inl x \<Rightarrow> Inl x | Inr f' \<Rightarrow> frontier_loop E S m f')"
  using assms by (subst frontier_loop.simps) simp

lemma frontier_loop_stop:
  "pagination_links f = [] \<or> m \<le> pages_scraped f \<Longrightarrow> frontier_loop E S m f = Inr f"
  by (subst frontier_loop.simps) auto

lemma frontier_loop_requests:
  "length (requests (walk_state (frontier_loop E S m f)))
     \<le> length (requests (run f)) + nat (m - pages_scraped f)"
proof (induction E S m f rule: frontier_loop.induct)
  case (1 E S m f)
  show ?case
  proof (cases "pagination_links f \<noteq> [] \<and> pages_scraped f < m")
    case True
    then obtain u rest where u: "pagination_links f = u # rest"
      by (cases "pagination_links f") auto
    note unf = frontier_loop_unfold [OF u conjunct2 [OF True], of E S]
    show ?thesis
    proof (cases "page_step E S f")
      case (Inl x)
      obtain e st' where x: "x = (e, st')" by (cases x)
      show ?thesis
      proof -
        have "frontier_loop E S m f = Inl (e, st')" using unf by (simp add: Inl x)
        moreover have "length (requests st') = length (requests (run f)) + 1"
          using page_step_Inl [OF u Inl [unfolded x]] by simp
        moreover have "1 \<le> nat (m - pages_scraped f)" using True by linarith
        ultimately show ?thesis by (simp add: walk_state_def)
      qed
    next
      case (Inr f')
      show ?thesis
      proof -
        have "frontier_loop E S m f = frontier_loop E S m f'" using unf by (simp add: Inr)
        moreover have "length (requests (run f')) = length (requests (run f)) + 1"
          and "pages_scraped f' = pages_scraped f + 1"
          using page_step_Inr [OF u Inr] by simp_all
        moreover have "1 + nat (m - (pages_scraped f + 1)) = nat (m - pages_scraped f)"
          using True by linarith
        ultimately show ?thesis using "1.IH" [OF True Inr] by simp
      qed
    qed
  next
    case False
    then have "frontier_loop E S m f = Inr f" by (intro frontier_loop_stop) auto
    then show ?thesis by (simp add: walk_state_def)
  qed
qed


lemma frontier_loop_kept:
  "files (walk_state (frontier_loop E S m f)) = files (run f) \<and>
   scraped_urls (walk_state (frontier_loop E S m f)) = scraped_urls (run f)"
proof (induction E S m f rule: frontier_loop.induct)
  case (1 E S m f)
  show ?case
  proof (cases "pagination_links f \<noteq> [] \<and> pages_scraped f < m")
    case True
    then obtain u rest where u: "pagination_links f = u # rest"
      by (cases "pagination_links f") auto
    note unf = frontier_loop_unfold [OF u conjunct2 [OF True], of E S]
    show ?thesis
    proof (cases "page_step E S f")
      case (Inl x)
      obtain e st' where x: "x = (e, st')" by (cases x)
      show ?thesis
        using True unf page_step_Inl [OF u Inl [unfolded x]]
        by (simp add: Inl x walk_state_def)
    next
      case (Inr f')
      show ?thesis
        using True unf "1.IH" [OF True Inr] page_step_Inr [OF u Inr]
        by (simp add: Inr)
    qed
  next
    case False
    then have "frontier_loop E S m f = Inr f" by (intro frontier_loop_stop) auto
    then show ?thesis by (simp add: walk_state_def)
  qed
qed


lemma walk_frontier_requests:
  "length (requests (walk_state (walk_frontier E S m html st))) \<le> length (requests st) + nat (m - 1)"
proof (cases "find_blog_links E S html")
  case (Inl e)
  then show ?thesis by (simp add: walk_frontier_def walk_state_def)
next
  case bl: (Inr links)
  show ?thesis
  proof (cases "find_pagination_links E S html")
    case (Inl e)
    then show ?thesis by (simp add: walk_frontier_def walk_state_def bl)
  next
    case (Inr queue)
    show ?thesis
      using frontier_loop_requests
              [of E S m "\<lparr>blog_links = links, pagination_links = queue, pages_scraped = 1, run = st\<rparr>"]
      by (simp add: walk_frontier_def bl Inr)
  qed
qed

lemma walk_frontier_kept:
  "files (walk_state (walk_frontier E S m html st)) = files st \<and>
   scraped_urls (walk_state (walk_frontier E S m html st)) = scraped_urls st"
proof (cases "find_blog_links E S html")
  case (Inl e)
  then show ?thesis by (simp add: walk_frontier_def walk_state_def)
next
  case bl: (Inr links)
  show ?thesis
  proof (cases "find_pagination_links E S html")
    case (Inl e)
    then show ?thesis by (simp add: walk_frontier_def walk_state_def bl)
  next
    case (Inr queue)
    show ?thesis
      using frontier_loop_kept
              [of E S m "\<lparr>blog_links = links, pagination_links = queue, pages_scraped = 1, run = st\<rparr>"]
      by (simp add: walk_frontier_def bl Inr)
  qed
qed


text \<open>
  Claim C3 says that, for every sequence of fetched pages, the loop ends within
  \<open>max_pages\<close> attempts with the counter raised once for each page it attempted. The loop
  does end, and it requests fewer than \<open>max_pages\<close> pages (\<open>walk_frontier_requests\<close>); where
  it returns, the counter is one plus the number of pages requested
  (\<open>walk_frontier_Inr\<close>). But a fetched page is classified under no handler, before
  \<^verbatim>\<open>pages_scraped += 1\<close>: on a listing page that holds \<^verbatim>\<open>href="//["\<close> the loop is left by the
  \<^verbatim>\<open>ValueError\<close> of \<^verbatim>\<open>urljoin\<close>, and \<^verbatim>\<open>scrape\<close> with it, after one attempted page that was
  never counted and before any post is fetched.
\<close>

theorem walk_raises_on_bracket_href:
  "find_pagination_links demo_env demo seed2_html = Inr [''https://example.com/blog/page/2''] \<and>
   http_get demo_env site_bracket ''https://example.com/blog/page/2''
     = (Some bracket_html, site_bracket) \<and>
   find_blog_links demo_env demo bracket_html = Inl ValueError \<and>
   walk_frontier demo_env demo 5 seed2_html (start site_bracket) =
     Inl (ValueError,
          \<lparr>net = site_bracket, requests = [''https://example.com/blog/page/2''],
           log = [PaginationPage ''https://example.com/blog/page/2''],
           files = [], scraped_urls = {}\<rparr>) \<and>
   scrape demo_env demo 50 5 (start site_bracket) =
     Inl (ValueError,
          \<lparr>net = site_bracket,
           requests = [''https://example.com/blog'', ''https://example.com/blog/page/2''],
           log = [Starting ''https://example.com/blog'',
                  PaginationPage ''https://example.com/blog/page/2''],
           files = [], scraped_urls = {}\<rparr>)"
  by code_simp

lemma seed_pagination:
  "find_pagination_links demo_env demo seed_html = Inr [''https://example.com/blog'']"
  by code_simp

text \<open>
  Claim C9. The seed page counts: the counter starts at 1, so with \<open>max_pages \<le> 1\<close> the walk
  ends with the frontier as the seed page gave it and requests nothing, even when the seed
  page has pagination links; in general it requests at most \<open>max_pages - 1\<close> pages, whether
  it returns or raises.
\<close>

theorem seed_counts_toward_page_limit:
  "(max_pages \<le> 1 \<longrightarrow>
      walk_frontier E S max_pages html st =
        (case find_blog_links E S html of
           Inl e \<Rightarrow> Inl (e, st)
         | Inr links \<Rightarrow>
             (case find_pagination_links E S html of
                Inl e \<Rightarrow> Inl (e, st)
              | Inr queue \<Rightarrow>
                  Inr \<lparr>blog_links = links, pagination_links = queue,
                       pages_scraped = 1, run = st\<rparr>))) \<and>
   length (requests (walk_state (walk_frontier E S max_pages html st))) - length (requests st)
     \<le> nat (max_pages - 1)"
proof -
  have "max_pages \<le> 1 \<Longrightarrow>
        frontier_loop E S max_pages
          \<lparr>blog_links = links, pagination_links = queue, pages_scraped = 1, run = st\<rparr>
        = Inr \<lparr>blog_links = links, pagination_links = queue, pages_scraped = 1, run = st\<rparr>"
    for links queue
    by (rule frontier_loop_stop) simp
  then have 1: "max_pages \<le> 1 \<longrightarrow>
      walk_frontier E S max_pages html st =
        (case find_blog_links E S html of
           Inl e \<Rightarrow> Inl (e, st)
         | Inr links \<Rightarrow>
             (case find_pagination_links E S html of
                Inl e \<Rightarrow> Inl (e, st)
              | Inr queue \<Rightarrow>
                  Inr \<lparr>blog_links = links, pagination_links = queue,
                       pages_scraped = 1, run = st\<rparr>))"
    by (simp add: walk_frontier_def split: sum.splits)
  have 2: "length (requests (walk_state (walk_frontier E S max_pages html st)))
             - length (requests st) \<le> nat (max_pages - 1)"
    using walk_frontier_requests [of E S max_pages html st] by simp
  from 1 2 show ?thesis by simp
qed

theorem seed_counts_toward_page_limit_witness:
  "(1::int) \<le> 1 \<and>
   find_pagination_links demo_env demo seed_html = Inr [''https://example.com/blog''] \<and>
   pagination_links (projr (walk_frontier demo_env demo 1 seed_html (start site_up)))
     = [''https://example.com/blog''] \<and>
   requests (walk_state (walk_frontier demo_env demo 1 seed_html (start site_up))) = []"
proof -
  have b: "find_blog_links demo_env demo seed_html = Inr [''https://example.com/blog/a'']"
    by code_simp
  have "walk_frontier demo_env demo 1 seed_html (start site_up) =
        Inr \<lparr>blog_links = [''https://example.com/blog/a''],
             pagination_links = [''https://example.com/blog''],
             pages_scraped = 1, run = start site_up\<rparr>"
    using seed_counts_toward_page_limit [of 1 demo_env demo seed_html "start site_up"]
    by (simp add: b seed_pagination)
  then show ?thesis by (simp add: seed_pagination start_def walk_state_def)
qed

subsection \<open>Extraction and file names\<close>

lemma first_select_append:
  "\<forall>s \<in> set before. select soup s = [] \<Longrightarrow> select soup sel \<noteq> [] \<Longrightarrow>
   first_select soup (before @ sel # after) = select soup sel"
  by (induction before) auto

lemma first_match_append:
  "\<forall>s \<in> set before. select soup s = [] \<Longrightarrow> select_one soup sel = Some e \<Longrightarrow>
   first_match soup (before @ sel # after) = Some (sel, e)"
  by (induction before) (auto simp: select_one_def)

lemma categories_extract:
  "categories (extract_blog_content E html u) = extract_categories (bs_parse E html)"
  by (simp add: extract_blog_content_def Let_def split: option.splits prod.splits)

lemma title_extract:
  "title (extract_blog_content E html u) = extract_title (bs_parse E html)"
  by (simp add: extract_blog_content_def Let_def split: option.splits prod.splits)

lemma date_extract:
  "date (extract_blog_content E html u) = extract_date (bs_parse E html)"
  by (simp add: extract_blog_content_def Let_def split: option.splits prod.splits)

lemma subseq_select: "subseq (select soup sel) (map snd (elements soup))"
  by (simp add: select_def subseq_map)

text \<open>
  Claim C5. The field \<open>categories\<close> holds the trimmed texts of every element that the first
  category selector with a match finds, in document order (\<open>select\<close> keeps the order of the
  document). Three elements give three entries.
\<close>

theorem categories_every_match_in_order:
  assumes "category_selectors = before @ sel # after"
    and "\<forall>s \<in> set before. select (bs_parse E html) s = []"
    and "select (bs_parse E html) sel \<noteq> []"
  shows "categories (extract_blog_content E html u)
           = map (\<lambda>cat. strip (get_text cat)) (select (bs_parse E html) sel) \<and>
         subseq (select (bs_parse E html) sel) (map snd (elements (bs_parse E html))) \<and>
         (length (select (bs_parse E html) sel) = 3 \<longrightarrow>
            length (categories (extract_blog_content E html u)) = 3)"
proof -
  have "first_select (bs_parse E html) category_selectors = select (bs_parse E html) sel"
    unfolding assms(1) using assms(2,3) by (rule first_select_append)
  then have c: "categories (extract_blog_content E html u)
           = map (\<lambda>cat. strip (get_text cat)) (select (bs_parse E html) sel)"
    by (simp add: categories_extract extract_categories_def)
  show ?thesis using c subseq_select by simp
qed

lemma cats_select:
  "select (bs_parse demo_env cats_html) [[[Class ''category'']]] = cats_soup"
  by code_simp

lemma cats_texts:
  "map (\<lambda>cat. strip (get_text cat)) cats_soup = [''A'', ''B'', ''C'']"
  by code_simp

theorem categories_every_match_in_order_witness:
  "category_selectors = [] @ [[[Class ''category'']]] # tl category_selectors \<and>
   length (select (bs_parse demo_env cats_html) [[[Class ''category'']]]) = 3 \<and>
   categories (extract_blog_content demo_env cats_html ''u'') = [''A'', ''B'', ''C'']"
proof -
  have d: "category_selectors = [] @ [[[Class ''category'']]] # tl category_selectors"
    by (simp add: category_selectors_def)
  have n: "select (bs_parse demo_env cats_html) [[[Class ''category'']]] \<noteq> []"
    by (simp add: cats_select cats_soup_def)
  have l: "length (select (bs_parse demo_env cats_html) [[[Class ''category'']]]) = 3"
    by (simp add: cats_select cats_soup_def)
  show ?thesis
    using categories_every_match_in_order [OF d _ n, of "''u''"] d l
    by (simp add: cats_select cats_texts)
qed

lemma decompose_scenario:
  "decompose_all script_style
     (Elem ''div'' da [Elem ''script'' sa sc, Elem ''p'' pa [Text a], Elem ''p'' pb [Text b]])
   = Elem ''div'' da [Elem ''p'' pa [Text a], Elem ''p'' pb [Text b]]"
  by (simp add: script_style_def matches_def matches_complex_def matches_compound_def)

lemma strip_Title: "strip ''Title'' = ''Title''"
  by code_simp

lemma content_extract:
  "first_match (bs_parse E html) content_selectors = Some (sel, e) \<Longrightarrow>
   content (extract_blog_content E html u) = strip (get_text (decompose_all script_style e))"
  by (simp add: extract_blog_content_def Let_def)

lemma strip_core:
  assumes l: "list_all isspace l" and r: "list_all isspace r"
    and c: "c = [] \<or> (\<not> isspace (hd c) \<and> \<not> isspace (last c))"
  shows "strip (l @ c @ r) = c"
proof (cases "c = []")
  case True
  have d: "dropWhile isspace (l @ r) = []"
    using l r by (auto simp: dropWhile_eq_Nil_conv list_all_iff)
  show ?thesis
    unfolding True strip_def by (simp only: append_Nil d rev.simps dropWhile.simps)
next
  case False
  with c have h: "\<not> isspace (hd c)" and t: "\<not> isspace (last c)" by auto
  have 1: "dropWhile isspace (l @ c @ r) = c @ r"
  proof -
    have "dropWhile isspace (l @ c @ r) = dropWhile isspace (c @ r)"
      using l by (intro dropWhile_append2) (simp add: list_all_iff)
    also have "\<dots> = c @ r"
      using False h by (cases c) auto
    finally show ?thesis .
  qed
  have 2: "dropWhile isspace (rev (c @ r)) = rev c"
  proof -
    have "dropWhile isspace (rev r @ rev c) = dropWhile isspace (rev c)"
      using r by (intro dropWhile_append2) (simp add: list_all_iff)
    also have "\<dots> = rev c"
      using False t by (cases "rev c") (auto simp: last_rev [symmetric] hd_rev)
    finally show ?thesis by simp
  qed
  show ?thesis by (simp only: strip_def 1 2 rev_rev_ident)
qed

text \<open>
  Claim C4. On a page whose first \<^verbatim>\<open>h1\<close> reads \<^verbatim>\<open>Title\<close>, where no date selector before the
  meta-tag selector matches and the meta tag carries \<^verbatim>\<open>content="2024-01-01"\<close>, and whose first
  content container is an \<^verbatim>\<open>.entry-content\<close> element holding a script and two paragraphs,
  the record has the title \<^verbatim>\<open>Title\<close>, the date read from the attribute, and as content the
  texts of the two paragraphs, one after the other, without the white space that leads and
  that trails them: if the two texts together are \<open>l @ core @ r\<close>, with \<open>l\<close> and \<open>r\<close> white
  space and \<open>core\<close> neither starting nor ending with white space, the content is \<open>core\<close>,
  whatever the script holds.
\<close>

theorem extract_scenario:
  assumes h1: "select_one (bs_parse E html) [[[Tag ''h1'']]] = Some (Elem ''h1'' ha [Text ''Title''])"
    and nodate: "\<forall>s \<in> set (take 5 date_selectors). select (bs_parse E html) s = []"
    and meta: "select_one (bs_parse E html) meta_published_time = Some m"
              "get_attr m ''content'' = Some ''2024-01-01''"
    and nocontent: "select (bs_parse E html) [[[Tag ''article'']]] = []"
                   "select (bs_parse E html) [[[Class ''post-content'']]] = []"
    and entry: "select_one (bs_parse E html) [[[Class ''entry-content'']]] =
                  Some (Elem ''div'' da
                          [Elem ''script'' sa sc, Elem ''p'' pa [Text a], Elem ''p'' pb [Text b]])"
    and texts: "a @ b = l @ core @ r" "list_all isspace l" "list_all isspace r"
               "core = [] \<or> (\<not> isspace (hd core) \<and> \<not> isspace (last core))"
  shows "title (extract_blog_content E html u) = ''Title'' \<and>
         date (extract_blog_content E html u) = ''2024-01-01'' \<and>
         content (extract_blog_content E html u) = core"
proof -
  let ?soup = "bs_parse E html"
  have t: "first_match ?soup title_selectors
             = Some ([[[Tag ''h1'']]], Elem ''h1'' ha [Text ''Title''])"
    using h1 by (simp add: title_selectors_def)
  have ds: "date_selectors = take 5 date_selectors @ meta_published_time # drop 6 date_selectors"
    by (simp add: date_selectors_def)
  have d: "first_match ?soup date_selectors = Some (meta_published_time, m)"
    by (subst ds) (rule first_match_append [OF nodate meta(1)])
  have cs: "content_selectors =
              [[[[Tag ''article'']]], [[[Class ''post-content'']]]] @
              [[[Class ''entry-content'']]] # drop 3 content_selectors"
    by (simp add: content_selectors_def)
  have c: "first_match ?soup content_selectors =
             Some ([[[Class ''entry-content'']]],
                   Elem ''div'' da
                     [Elem ''script'' sa sc, Elem ''p'' pa [Text a], Elem ''p'' pb [Text b]])"
    by (subst cs) (rule first_match_append, simp_all add: nocontent entry)
  have 1: "title (extract_blog_content E html u) = ''Title''"
    by (simp add: title_extract extract_title_def t strip_Title)
  have 2: "date (extract_blog_content E html u) = ''2024-01-01''"
    by (simp add: date_extract extract_date_def d get_content_def meta(2))
  have "content (extract_blog_content E html u) = strip (a @ b)"
    unfolding content_extract [OF c] decompose_scenario by simp
  then have 3: "content (extract_blog_content E html u) = core"
    unfolding texts(1) by (simp only: strip_core [OF texts(2,3,4)])
  from 1 2 3 show ?thesis by simp
qed

lemma post_no_date:
  "list_all (\<lambda>s. select (bs_parse demo_env post_html) s = []) (take 5 date_selectors)"
  by code_simp

lemma post_facts:
  "select_one (bs_parse demo_env post_html) [[[Tag ''h1'']]] = Some (Elem ''h1'' [] [Text ''Title''])"
  "select_one (bs_parse demo_env post_html) meta_published_time =
     Some (Elem ''meta'' [(''property'', ''article:published_time''), (''content'', ''2024-01-01'')] [])"
  "select (bs_parse demo_env post_html) [[[Tag ''article'']]] = []"
  "select (bs_parse demo_env post_html) [[[Class ''post-content'']]] = []"
  "select_one (bs_parse demo_env post_html) [[[Class ''entry-content'']]] =
     Some (Elem ''div'' [(''class'', ''entry-content'')]
        [Elem ''script'' [] [Text ''x()''], Elem ''p'' [] [Text '' One ''],
         Elem ''p'' [] [Text ''Two '']])"
  by code_simp+

theorem extract_scenario_witness:
  "select_one (bs_parse demo_env post_html) [[[Tag ''h1'']]] = Some (Elem ''h1'' [] [Text ''Title'']) \<and>
   list_all (\<lambda>s. select (bs_parse demo_env post_html) s = []) (take 5 date_selectors) \<and>
   '' One '' @ ''Two '' = '' '' @ ''One Two'' @ '' '' \<and>
   title (extract_blog_content demo_env post_html ''u'') = ''Title'' \<and>
   date (extract_blog_content demo_env post_html ''u'') = ''2024-01-01'' \<and>
   content (extract_blog_content demo_env post_html ''u'') = ''One Two''"
proof -
  have n: "\<forall>s \<in> set (take 5 date_selectors). select (bs_parse demo_env post_html) s = []"
    using post_no_date by (simp add: list_all_iff)
  have g: "get_attr (Elem ''meta'' [(''property'', ''article:published_time''),
                                     (''content'', ''2024-01-01'')] []) ''content''
             = Some ''2024-01-01''"
    by simp
  have x: "'' One '' @ ''Two '' = '' '' @ ''One Two'' @ '' ''"
    by simp
  have w: "list_all isspace '' ''"
    by (simp add: isspace_def)
  have c: "''One Two'' = [] \<or> (\<not> isspace (hd ''One Two'') \<and> \<not> isspace (last ''One Two''))"
    by (simp add: isspace_def)
  show ?thesis
    using extract_scenario [OF post_facts(1) n post_facts(2) g post_facts(3,4,5) x w w c,
                            of "''u''"]
          post_no_date post_facts(1)
    by simp
qed

lemma split_acc_ne: "split_acc sep cur s \<noteq> []"
  by (induction s arbitrary: cur) auto

lemma word_char_underscore: "word_char (CHR ''_'')"
  by (simp add: word_char_def)

lemma sanitize_class: "list_all (\<lambda>c. word_char c \<or> c = CHR ''-'') (sanitize s)"
  by (induction s) (auto simp: sanitize_def word_char_underscore)

lemma post_class: "list_all (\<lambda>c. word_char c \<or> c = CHR ''-'') ''post''"
  by (simp add: word_char_def)

lemma list_all_take: "list_all P xs \<Longrightarrow> list_all P (take n xs)"
  by (auto simp: list_all_iff dest: in_set_takeD)

text \<open>
  Claim C8, amended. The file name is the title, or for an empty title the text after the
  last \<^verbatim>\<open>/\<close> of the whole URL, with every character outside the class replaced by an
  underscore, cut at 50 characters, with \<^verbatim>\<open>.json\<close> appended, except that an empty title
  together with nothing after the last \<^verbatim>\<open>/\<close> gives the fixed name \<^verbatim>\<open>post.json\<close>. In every
  case the part before the extension lies in the class and the name has at most 55
  characters. For a record that has a title this is the name that the claim gives.
\<close>

theorem save_post_filename:
  "filename_of p =
     take 50 (if title p \<noteq> [] then sanitize (title p)
              else if last (split (url p) (CHR ''/'')) = [] then ''post''
              else sanitize (last (split (url p) (CHR ''/'')))) @ ''.json'' \<and>
   length (sanitize s) = length s \<and>
   list_all (\<lambda>(c, d). d = (if word_char c \<or> c = CHR ''-'' then c else CHR ''_''))
            (zip s (sanitize s)) \<and>
   list_all (\<lambda>c. word_char c \<or> c = CHR ''-'') (take (length (filename_of p) - 5) (filename_of p)) \<and>
   length (filename_of p) \<le> 55 \<and>
   fst (save_post S st p) = path_join (output_folder S) (filename_of p) \<and>
   (title p \<noteq> [] \<longrightarrow> filename_of p = claimed_filename p)"
proof -
  define base where "base =
    (if title p = []
     then (let f = sanitize (last (split (url p) (CHR ''/''))) in if f = [] then ''post'' else f)
     else sanitize (title p))"
  have f: "filename_of p = take 50 base @ ''.json''"
    by (simp add: filename_of_def base_def Let_def)
  have 1: "filename_of p =
     take 50 (if title p \<noteq> [] then sanitize (title p)
              else if last (split (url p) (CHR ''/'')) = [] then ''post''
              else sanitize (last (split (url p) (CHR ''/'')))) @ ''.json''"
    by (simp add: filename_of_def Let_def sanitize_def)
  have s1: "length (sanitize s) = length s"
    by (simp add: sanitize_def)
  have s2: "list_all (\<lambda>(c, d). d = (if word_char c \<or> c = CHR ''-'' then c else CHR ''_''))
              (zip s (sanitize s))"
    by (induction s) (simp_all add: sanitize_def)
  have b: "list_all (\<lambda>c. word_char c \<or> c = CHR ''-'') base"
    unfolding base_def Let_def using sanitize_class post_class by simp
  have 2: "list_all (\<lambda>c. word_char c \<or> c = CHR ''-'')
             (take (length (filename_of p) - 5) (filename_of p))"
    unfolding f using list_all_take [OF b] by simp
  have 3: "length (filename_of p) \<le> 55"
    unfolding f by simp
  have 4: "fst (save_post S st p) = path_join (output_folder S) (filename_of p)"
    by (simp add: save_post_def Let_def)
  have 5: "title p \<noteq> [] \<longrightarrow> filename_of p = claimed_filename p"
    by (simp add: filename_of_def claimed_filename_def)
  from 1 s1 s2 2 3 4 5 show ?thesis by simp
qed

theorem save_post_filename_witness:
  "title hello_post \<noteq> [] \<and>
   filename_of hello_post = ''Hello__World__-_Part_1.json'' \<and>
   claimed_filename hello_post = ''Hello__World__-_Part_1.json'' \<and>
   filename_of slash_post = ''post.json'' \<and>
   filename_of query_post = ''b.json''"
proof -
  have h: "claimed_filename hello_post = ''Hello__World__-_Part_1.json''"
    by code_simp
  have t: "title hello_post \<noteq> []" "title slash_post = []" "title query_post = []"
          "last (split (url slash_post) (CHR ''/'')) = []"
          "last (split (url query_post) (CHR ''/'')) = ''b''"
          "sanitize ''b'' = ''b''"
    by code_simp+
  have 1: "filename_of hello_post = claimed_filename hello_post"
    using save_post_filename [of hello_post] t(1) by blast
  have 2: "filename_of slash_post = ''post.json''"
    using save_post_filename [of slash_post, THEN conjunct1] t by simp
  have 3: "filename_of query_post = ''b.json''"
    using save_post_filename [of query_post, THEN conjunct1] t by simp
  show ?thesis using 1 2 3 h t(1) by simp
qed

text \<open>
  Claim C8 as it is written fails at two records without a title. Where the URL ends with
  a slash, the code names the file \<^verbatim>\<open>post.json\<close>, the claim \<^verbatim>\<open>.json\<close>. Where the query of the
  URL holds a slash, as in \<^verbatim>\<open>https://example.com/post?next=/a/b\<close>, the code names the file
  after what follows that slash, \<^verbatim>\<open>b.json\<close>, the claim after the final segment of the path,
  \<^verbatim>\<open>post.json\<close>.
\<close>

theorem save_post_filename_counterexample:
  "filename_of slash_post \<noteq> claimed_filename slash_post \<and>
   filename_of query_post \<noteq> claimed_filename query_post"
  by code_simp

subsection \<open>The run\<close>

lemma fetch_page_falsy:
  assumes "http_get E (net st) u = (r, w)" and "\<not> truthy r"
  shows "fetch_page E st u =
           (r, st\<lparr>net := w, requests := requests st @ [u],
                  log := log st @ (if r = None then [FetchError u] else [])\<rparr>)"
proof (cases r)
  case None
  then show ?thesis using assms(1) by (simp add: fetch_page_def logging_def Let_def)
next
  case (Some t)
  then show ?thesis using assms by (simp add: fetch_page_def Let_def)
qed

lemma fetch_page_Some:
  "http_get E (net st) u = (Some t, w) \<Longrightarrow>
   fetch_page E st u = (Some t, st\<lparr>net := w, requests := requests st @ [u]\<rparr>)"
  by (simp add: fetch_page_def Let_def)

lemma save_post_effect:
  "save_post S st p = (path, st') \<Longrightarrow>
   files st' = files st @ [(path, p)] \<and> requests st' = requests st \<and>
   scraped_urls st' = scraped_urls st \<and> log st' = log st @ [Saved path]"
  by (auto simp: save_post_def logging_def Let_def)

lemma post_step_effect:
  "length (files (run_state (post_step E S n i link st))) \<le> length (files st) + 1 \<and>
   set (requests st) \<subseteq> set (requests (run_state (post_step E S n i link st))) \<and>
   scraped_urls (run_state (post_step E S n i link st)) \<subseteq> insert link (scraped_urls st) \<and>
   (link \<in> scraped_urls st \<or> link \<in> set (requests (run_state (post_step E S n i link st))))"
proof (cases "link \<in> scraped_urls st")
  case True
  then show ?thesis by (auto simp: post_step_def run_state_def)
next
  case False
  obtain r st1 where fp: "fetch_page E (logging (Scraping i n link) st) link = (r, st1)"
    by (cases "fetch_page E (logging (Scraping i n link) st) link") auto
  obtain path st2 where sp: "save_post S st1 (extract_blog_content E (the r) link) = (path, st2)"
    by (cases "save_post S st1 (extract_blog_content E (the r) link)") auto
  have e1: "requests st1 = requests st @ [link] \<and> files st1 = files st \<and>
            scraped_urls st1 = scraped_urls st"
    using fetch_page_effect [OF fp] by (simp add: logging_def)
  note e2 = save_post_effect [OF sp]
  show ?thesis
    using False e1 e2
    by (auto simp: post_step_def fp sp run_state_def Let_def split: option.splits)
qed

lemma scrape_posts_files:
  "length (files (run_state (scrape_posts E S n i links st))) \<le> length (files st) + length links"
proof (induction links arbitrary: i st)
  case Nil
  show ?case by (simp add: run_state_def)
next
  case (Cons link links)
  show ?case
  proof (cases "post_step E S n i link st")
    case (Inl x)
    then show ?thesis
      using post_step_effect [of E S n i link st] by simp
  next
    case (Inr st1)
    then show ?thesis
      using post_step_effect [of E S n i link st] Cons.IH [where i = "i + 1" and st = st1]
      by (simp add: run_state_def)
  qed
qed



lemma scrape_seed_falsy:
  assumes "http_get E (net st) (base_url S) = (r, w)" and "\<not> truthy r"
  shows "scrape E S max_posts max_pages st =
           Inr (st\<lparr>net := w, requests := requests st @ [base_url S],
                   log := log st @ [Starting (base_url S)]
                            @ (if r = None then [FetchError (base_url S)] else [])
                            @ [HomepageFailed (base_url S)]\<rparr>)"
proof -
  have h: "http_get E (net (logging (Starting (base_url S)) st)) (base_url S) = (r, w)"
    using assms(1) by (simp add: logging_def)
  show ?thesis
    unfolding scrape_def fetch_page_falsy [OF h assms(2)]
    using assms(2) by (simp add: logging_def)
qed

lemma scrape_seed_ok:
  assumes "http_get E (net st) (base_url S) = (Some html, w)" and "html \<noteq> []"
  shows "scrape E S max_posts max_pages st =
           (case walk_frontier E S max_pages html
                   ((logging (Starting (base_url S)) st)
                      \<lparr>net := w, requests := requests st @ [base_url S]\<rparr>) of
              Inl x \<Rightarrow> Inl x
            | Inr f \<Rightarrow>
                (case scrape_posts E S (length (posts_to_scrape E max_posts (blog_links f))) 1
                        (posts_to_scrape E max_posts (blog_links f))
                        (logging (Found (length (posts_to_scrape E max_posts (blog_links f))))
                                 (run f)) of
                   Inl x \<Rightarrow> Inl x
                 | Inr st2 \<Rightarrow> Inr (logging (Completed (card (scraped_urls st2))) st2)))"
proof -
  have h: "http_get E (net (logging (Starting (base_url S)) st)) (base_url S) = (Some html, w)"
    using assms(1) by (simp add: logging_def)
  show ?thesis
    unfolding scrape_def fetch_page_Some [OF h]
    using assms(2) by (simp add: Let_def logging_def split: sum.splits)
qed

lemma page_step_falsy:
  assumes "pagination_links f = u # rest" and "http_get E (net (run f)) u = (r, w)"
    and "\<not> truthy r"
  shows "let st' = (run f)\<lparr>net := w, requests := requests (run f) @ [u],
                            log := log (run f) @ [PaginationPage u]
                                     @ (if r = None then [FetchError u] else [])\<rparr>
         in page_step E S f =
              (case time_sleep E (delay S) of
                 Some e \<Rightarrow> Inl (e, st')
               | None \<Rightarrow> Inr \<lparr>blog_links = blog_links f, pagination_links = rest,
                              pages_scraped = pages_scraped f + 1, run = st'\<rparr>)"
proof -
  have h: "http_get E (net (logging (PaginationPage u) (run f))) u = (r, w)"
    using assms(2) by (simp add: logging_def)
  have p: "page_links E S (blog_links f) rest r = Inr (blog_links f, rest)"
    using assms(3) by (simp add: page_links_def)
  show ?thesis
    using page_step_Cons [of f u rest E r _ S, OF assms(1) fetch_page_falsy [OF h assms(3)]]
    by (simp add: p logging_def Let_def split: option.splits)
qed

lemma post_step_falsy:
  assumes "link \<notin> scraped_urls st" and "http_get E (net st) link = (r, w)" and "\<not> truthy r"
  shows "let st' = st\<lparr>net := w, requests := requests st @ [link],
                        log := log st @ [Scraping i n link]
                                 @ (if r = None then [FetchError link] else [])\<rparr>
         in post_step E S n i link st =
              (case time_sleep E (delay S) of Some e \<Rightarrow> Inl (e, st') | None \<Rightarrow> Inr st')"
proof -
  have h: "http_get E (net (logging (Scraping i n link) st)) link = (r, w)"
    using assms(2) by (simp add: logging_def)
  show ?thesis
    using assms(1,3) unfolding post_step_def fetch_page_falsy [OF h assms(3)]
    by (simp add: logging_def Let_def split: option.splits)
qed
















lemma sleep_demo_1: "time_sleep demo_env (delay demo) = None"
  by (simp add: demo_env_def demo_def sleep_demo_def)


lemma slice_to_props:
  "set (slice_to xs k) \<subseteq> set xs \<and> (distinct xs \<longrightarrow> distinct (slice_to xs k)) \<and>
   (0 \<le> k \<longrightarrow> length (slice_to xs k) \<le> nat k)"
  by (auto simp: slice_to_def dest: in_set_takeD)

lemma posts_to_scrape_props:
  assumes "set_list_ok E" and "0 \<le> max_posts"
  shows "distinct (posts_to_scrape E max_posts links) \<and>
         length (posts_to_scrape E max_posts links) \<le> nat max_posts \<and>
         set (posts_to_scrape E max_posts links) \<subseteq> set links \<and>
         length (posts_to_scrape E max_posts links) = min (nat max_posts) (card (set links))"
proof -
  have d: "distinct (set_list E links)" and s: "set (set_list E links) = set links"
    using assms(1) by (simp_all add: set_list_ok_def)
  have c: "length (set_list E links) = card (set links)"
    using distinct_card [OF d] s by simp
  have l: "length (posts_to_scrape E max_posts links) = min (nat max_posts) (card (set links))"
    using assms(2) c by (simp add: posts_to_scrape_def slice_to_def min.commute)
  show ?thesis
    unfolding posts_to_scrape_def
    using slice_to_props [of "set_list E links" max_posts] d s assms(2)
          l [unfolded posts_to_scrape_def]
    by simp
qed

lemma page_step_links:
  assumes "page_step E S f = Inr g" and "l \<in> set (blog_links g)"
  shows "l \<in> set (blog_links f) \<or> (\<exists>h ls. find_blog_links E S h = Inr ls \<and> l \<in> set ls)"
proof (cases "pagination_links f")
  case Nil
  then show ?thesis using assms by (simp add: page_step_def)
next
  case (Cons u rest)
  obtain r st' where fp: "fetch_page E (logging (PaginationPage u) (run f)) u = (r, st')"
    by (cases "fetch_page E (logging (PaginationPage u) (run f)) u") auto
  show ?thesis
    using assms unfolding page_step_Cons [OF Cons fp]
    by (auto simp: page_links_def split: sum.splits option.splits if_splits)
qed

lemma frontier_loop_links:
  "frontier_loop E S m f = Inr g \<Longrightarrow> l \<in> set (blog_links g) \<Longrightarrow>
   l \<in> set (blog_links f) \<or> (\<exists>h ls. find_blog_links E S h = Inr ls \<and> l \<in> set ls)"
proof (induction E S m f rule: frontier_loop.induct)
  case (1 E S m f)
  show ?case
  proof (cases "pagination_links f \<noteq> [] \<and> pages_scraped f < m")
    case True
    then obtain u rest where u: "pagination_links f = u # rest"
      by (cases "pagination_links f") auto
    note unf = frontier_loop_unfold [OF u conjunct2 [OF True], of E S]
    show ?thesis
    proof (cases "page_step E S f")
      case (Inl x)
      then show ?thesis using unf "1.prems" by simp
    next
      case (Inr f')
      then have "frontier_loop E S m f' = Inr g" using unf "1.prems" by simp
      then have "l \<in> set (blog_links f') \<or>
                 (\<exists>h ls. find_blog_links E S h = Inr ls \<and> l \<in> set ls)"
        using "1.IH" [OF True Inr] "1.prems"(2) by simp
      then show ?thesis using page_step_links [OF Inr] by blast
    qed
  next
    case False
    then have "frontier_loop E S m f = Inr f" by (intro frontier_loop_stop) auto
    then show ?thesis using "1.prems" by simp
  qed
qed

lemma walk_frontier_links:
  assumes "walk_frontier E S m html st = Inr g" and "l \<in> set (blog_links g)"
  shows "\<exists>h ls. find_blog_links E S h = Inr ls \<and> l \<in> set ls"
proof -
  obtain links queue where
    a: "find_blog_links E S html = Inr links" and b: "find_pagination_links E S html = Inr queue"
    using assms(1) by (auto simp: walk_frontier_def split: sum.splits)
  have g: "frontier_loop E S m
             \<lparr>blog_links = links, pagination_links = queue, pages_scraped = 1, run = st\<rparr> = Inr g"
    using assms(1) by (simp add: walk_frontier_def a b)
  show ?thesis
    using frontier_loop_links [OF g assms(2)] a by auto
qed

lemma scrape_files:
  assumes "set_list_ok E" and "0 \<le> max_posts"
  shows "length (files (run_state (scrape E S max_posts max_pages st)))
           \<le> length (files st) + nat max_posts"
proof -
  obtain r w where h: "http_get E (net st) (base_url S) = (r, w)"
    by (cases "http_get E (net st) (base_url S)") auto
  show ?thesis
  proof (cases "truthy r")
    case False
    show ?thesis by (simp add: scrape_seed_falsy [OF h False] run_state_def)
  next
    case True
    then obtain html where r: "r = Some html" and n: "html \<noteq> []"
      by (cases r) auto
    define st1 where "st1 = (logging (Starting (base_url S)) st)
                          \<lparr>net := w, requests := requests st @ [base_url S]\<rparr>"
    note k = walk_frontier_kept [of E S max_pages html st1]
    have f1: "files st1 = files st" by (simp add: st1_def logging_def)
    note so = scrape_seed_ok [OF h [unfolded r] n, of max_posts max_pages, folded st1_def]
    show ?thesis
    proof (cases "walk_frontier E S max_pages html st1")
      case (Inl x)
      then show ?thesis using k f1 by (simp add: so run_state_def walk_state_def)
    next
      case (Inr f)
      define links where "links = posts_to_scrape E max_posts (blog_links f)"
      define st2 where "st2 = logging (Found (length links)) (run f)"
      have f2: "files st2 = files st"
        using k f1 by (simp add: Inr walk_state_def st2_def logging_def)
      have l: "length links \<le> nat max_posts"
        unfolding links_def using posts_to_scrape_props [OF assms] by blast
      have b: "length (files (run_state (scrape_posts E S (length links) 1 links st2)))
                 \<le> length (files st) + nat max_posts"
        using scrape_posts_files [of E S "length links" 1 links st2] f2 l by simp
      have e: "files (run_state (scrape E S max_posts max_pages st))
                 = files (run_state (scrape_posts E S (length links) 1 links st2))"
      proof -
        have "scrape E S max_posts max_pages st =
                (case scrape_posts E S (length links) 1 links st2 of
                   Inl x \<Rightarrow> Inl x
                 | Inr s \<Rightarrow> Inr (logging (Completed (card (scraped_urls s))) s))"
          by (simp only: so Inr sum.case links_def st2_def)
        then show ?thesis
          by (cases "scrape_posts E S (length links) 1 links st2")
             (auto simp: run_state_def logging_def)
      qed
      show ?thesis unfolding e by (rule b)
    qed
  qed
qed

text \<open>
  Claim C7. The list that the loop over the posts works through is
  \<^verbatim>\<open>list(set(blog_links))[:max_posts]\<close>: it has no duplicates, at most \<open>max_posts\<close> entries,
  as many as there are distinct links where these are fewer, and only links that the walk
  accumulated, each of them found by \<open>find_blog_links\<close> on a page. So a run writes at most \<open>max_posts\<close> files, however it ends. The
  bound is a number of posts, so \<open>max_posts\<close> is not negative.
\<close>

theorem posts_distinct_and_capped:
  assumes "set_list_ok E" and "0 \<le> max_posts"
  shows "distinct (posts_to_scrape E max_posts links) \<and>
         int (length (posts_to_scrape E max_posts links)) \<le> max_posts \<and>
         length (posts_to_scrape E max_posts links) = min (nat max_posts) (card (set links)) \<and>
         set (posts_to_scrape E max_posts links) \<subseteq> set links \<and>
         (\<forall>f. walk_frontier E S max_pages html st1 = Inr f \<longrightarrow>
              (\<forall>l \<in> set (posts_to_scrape E max_posts (blog_links f)).
                  \<exists>h ls. find_blog_links E S h = Inr ls \<and> l \<in> set ls)) \<and>
         length (files (run_state (scrape E S max_posts max_pages st)))
           \<le> length (files st) + nat max_posts"
proof -
  have "length (posts_to_scrape E max_posts links) \<le> nat max_posts"
    using posts_to_scrape_props [OF assms] by blast
  then have 2: "int (length (posts_to_scrape E max_posts links)) \<le> max_posts"
    using assms(2) by linarith
  have 4: "\<forall>f. walk_frontier E S max_pages html st1 = Inr f \<longrightarrow>
              (\<forall>l \<in> set (posts_to_scrape E max_posts (blog_links f)).
                  \<exists>h ls. find_blog_links E S h = Inr ls \<and> l \<in> set ls)"
  proof (intro allI impI ballI)
    fix f l
    assume w: "walk_frontier E S max_pages html st1 = Inr f"
      and "l \<in> set (posts_to_scrape E max_posts (blog_links f))"
    then have "l \<in> set (blog_links f)"
      using posts_to_scrape_props [OF assms, of "blog_links f"] by blast
    then show "\<exists>h ls. find_blog_links E S h = Inr ls \<and> l \<in> set ls"
      by (rule walk_frontier_links [OF w])
  qed
  show ?thesis
    using posts_to_scrape_props [OF assms, of links] 2 4 scrape_files [OF assms] by blast
qed

lemma set_list_ok_demo: "set_list_ok demo_env"
  by (simp add: set_list_ok_def demo_env_def)

theorem posts_distinct_and_capped_witness:
  "set_list_ok demo_env \<and> (0::int) \<le> 1 \<and>
   posts_to_scrape demo_env 1 [''a'', ''b'', ''a''] = [''b''] \<and>
   posts_to_scrape demo_env 2 [''a'', ''b'', ''a''] = [''b'', ''a''] \<and>
   length (files (run_state (scrape demo_env demo 1 3 (start site_up)))) \<le> 1"
proof -
  have p: "posts_to_scrape demo_env 1 [''a'', ''b'', ''a''] = [''b'']"
          "posts_to_scrape demo_env 2 [''a'', ''b'', ''a''] = [''b'', ''a'']"
    by (simp_all add: posts_to_scrape_def slice_to_def demo_env_def)
  have z: "(0::int) \<le> 1" by simp
  have "length (files (run_state (scrape demo_env demo 1 3 (start site_up))))
          \<le> length (files (start site_up)) + nat 1"
    using posts_distinct_and_capped [OF set_list_ok_demo z, where S = demo
                                       and max_pages = 3 and st = "start site_up"]
    by blast
  then show ?thesis
    using p set_list_ok_demo by (simp add: start_def)
qed

text \<open>
  Claim C10. \<open>fetch_page\<close> returns the text of the response, and each of its three callers
  tests that text for truth. So a response with an empty body has the effect of a fetch
  that failed, the one message that \<open>fetch_page\<close> logs for a failure apart: on the seed
  page the run ends at once; a pagination page is counted and left, its links never
  looked for; a post page is left with no record extracted or written and the URL not
  marked as scraped.
\<close>

theorem empty_body_as_failure:
  "(http_get E (net st) (base_url S) = (r, w) \<and> (r = None \<or> r = Some []) \<longrightarrow>
      scrape E S max_posts max_pages st =
        Inr (st\<lparr>net := w, requests := requests st @ [base_url S],
                log := log st @ [Starting (base_url S)]
                         @ (if r = None then [FetchError (base_url S)] else [])
                         @ [HomepageFailed (base_url S)]\<rparr>)) \<and>
   (pagination_links f = u # rest \<and> http_get E (net (run f)) u = (r, w) \<and>
    (r = None \<or> r = Some []) \<longrightarrow>
      (let st' = (run f)\<lparr>net := w, requests := requests (run f) @ [u],
                         log := log (run f) @ [PaginationPage u]
                                  @ (if r = None then [FetchError u] else [])\<rparr>
       in page_step E S f =
            (case time_sleep E (delay S) of
               Some e \<Rightarrow> Inl (e, st')
             | None \<Rightarrow> Inr \<lparr>blog_links = blog_links f, pagination_links = rest,
                            pages_scraped = pages_scraped f + 1, run = st'\<rparr>))) \<and>
   (link \<notin> scraped_urls st \<and> http_get E (net st) link = (r, w) \<and>
    (r = None \<or> r = Some []) \<longrightarrow>
      (let st' = st\<lparr>net := w, requests := requests st @ [link],
                     log := log st @ [Scraping i n link]
                              @ (if r = None then [FetchError link] else [])\<rparr>
       in post_step E S n i link st =
            (case time_sleep E (delay S) of Some e \<Rightarrow> Inl (e, st') | None \<Rightarrow> Inr st')))"
proof (intro conjI impI)
  assume a: "http_get E (net st) (base_url S) = (r, w) \<and> (r = None \<or> r = Some [])"
  then have "\<not> truthy r" by auto
  then show "scrape E S max_posts max_pages st =
        Inr (st\<lparr>net := w, requests := requests st @ [base_url S],
                log := log st @ [Starting (base_url S)]
                         @ (if r = None then [FetchError (base_url S)] else [])
                         @ [HomepageFailed (base_url S)]\<rparr>)"
    using a by (simp add: scrape_seed_falsy)
next
  assume a: "pagination_links f = u # rest \<and> http_get E (net (run f)) u = (r, w) \<and>
             (r = None \<or> r = Some [])"
  then have t: "\<not> truthy r" by auto
  show "let st' = (run f)\<lparr>net := w, requests := requests (run f) @ [u],
                         log := log (run f) @ [PaginationPage u]
                                  @ (if r = None then [FetchError u] else [])\<rparr>
       in page_step E S f =
            (case time_sleep E (delay S) of
               Some e \<Rightarrow> Inl (e, st')
             | None \<Rightarrow> Inr \<lparr>blog_links = blog_links f, pagination_links = rest,
                            pages_scraped = pages_scraped f + 1, run = st'\<rparr>)"
    using a by (intro page_step_falsy [OF _ _ t]) simp_all
next
  assume a: "link \<notin> scraped_urls st \<and> http_get E (net st) link = (r, w) \<and>
             (r = None \<or> r = Some [])"
  then have t: "\<not> truthy r" by auto
  show "let st' = st\<lparr>net := w, requests := requests st @ [link],
                     log := log st @ [Scraping i n link]
                              @ (if r = None then [FetchError link] else [])\<rparr>
       in post_step E S n i link st =
            (case time_sleep E (delay S) of Some e \<Rightarrow> Inl (e, st') | None \<Rightarrow> Inr st')"
    using a by (intro post_step_falsy [OF _ _ t]) simp_all
qed

lemma site_empty_get:
  "http_get demo_env (net (start site_empty)) ''https://example.com/blog'' = (Some [], site_empty)"
  by (simp add: demo_env_def start_def site_empty_def)

theorem empty_body_as_failure_witness:
  "http_get demo_env (net (start site_empty)) (base_url demo) = (Some [], site_empty) \<and>
   scrape demo_env demo 50 5 (start site_empty) =
     Inr \<lparr>net = site_empty, requests = [''https://example.com/blog''],
          log = [Starting ''https://example.com/blog'', HomepageFailed ''https://example.com/blog''],
          files = [], scraped_urls = {}\<rparr> \<and>
   page_step demo_env demo
     \<lparr>blog_links = [], pagination_links = [''https://example.com/blog''], pages_scraped = 1,
      run = start site_empty\<rparr> =
     Inr \<lparr>blog_links = [], pagination_links = [], pages_scraped = 2,
          run = \<lparr>net = site_empty, requests = [''https://example.com/blog''],
                 log = [PaginationPage ''https://example.com/blog''],
                 files = [], scraped_urls = {}\<rparr>\<rparr> \<and>
   post_step demo_env demo 1 1 ''https://example.com/blog'' (start site_empty) =
     Inr \<lparr>net = site_empty, requests = [''https://example.com/blog''],
          log = [Scraping 1 1 ''https://example.com/blog''],
          files = [], scraped_urls = {}\<rparr>"
proof -
  let ?u = "''https://example.com/blog''"
  let ?f = "\<lparr>blog_links = [], pagination_links = [?u], pages_scraped = 1,
             run = start site_empty\<rparr>"
  note t = empty_body_as_failure [where E = demo_env and S = demo and st = "start site_empty"
             and r = "Some []" and w = site_empty and f = ?f and u = ?u and rest = "[]"
             and link = ?u and max_posts = 50 and max_pages = 5 and n = 1 and i = 1]
  have b: "base_url demo = ?u" by (simp add: demo_def)
  have g: "http_get demo_env (net (start site_empty)) (base_url demo) = (Some [], site_empty)"
    using site_empty_get by (simp add: b)
  have 1: "scrape demo_env demo 50 5 (start site_empty) =
     Inr \<lparr>net = site_empty, requests = [?u], log = [Starting ?u, HomepageFailed ?u],
          files = [], scraped_urls = {}\<rparr>"
    using t [THEN conjunct1] g by (simp add: b start_def)
  have 2: "page_step demo_env demo ?f =
     Inr \<lparr>blog_links = [], pagination_links = [], pages_scraped = 2,
          run = \<lparr>net = site_empty, requests = [?u], log = [PaginationPage ?u],
                 files = [], scraped_urls = {}\<rparr>\<rparr>"
    using t [THEN conjunct2, THEN conjunct1] site_empty_get
    by (simp add: start_def sleep_demo_1 Let_def)
  have 3: "post_step demo_env demo 1 1 ?u (start site_empty) =
     Inr \<lparr>net = site_empty, requests = [?u], log = [Scraping 1 1 ?u],
          files = [], scraped_urls = {}\<rparr>"
    using t [THEN conjunct2, THEN conjunct2] site_empty_get
    by (simp add: start_def sleep_demo_1 Let_def)
  show ?thesis using g 1 2 3 by simp
qed

end
